theory Spec2Isabelle
  imports Complex_Main "HOL-Library.Word" "HOL-Library.Signed_Division"
begin

unbundle bit_operations_syntax

section \<open>Data Matrix high-level encoder (DMHighLevelEncoder.cpp)\<close>

text \<open>
  Conventions of the embedding.
  \<^item> A \<open>char\<close> of a \<open>std::string\<close> is an octet, an \<open>8 word\<close>. Plain \<open>char\<close> is
    signed, as it is for the compilers of x86-64: where the source reads a \<open>char\<close> as
    an \<open>int\<close> (\<open>int c = msg.at(i)\<close>, a \<open>char\<close> passed for an \<open>int\<close>, a character
    literal such as \<open>'\x80'\<close> in a comparison) the number is \<open>sint\<close> of the octet, from
    -128 to 127. A cast \<open>(char) e\<close>, and an \<open>int\<close> stored into a \<open>char\<close>, is
    \<open>word_of_int e\<close>.
  \<^item> A \<open>wchar_t\<close> of a \<open>std::wstring\<close> is the code point, an \<open>int\<close>.
  \<^item> An \<open>int\<close> is an unbounded integer: every quantity of the encoder is bounded
    by a small multiple of the message length. \<open>/\<close> and \<open>%\<close> are \<open>div\<close> and \<open>mod\<close>
    where no operand can be negative, and the truncating \<open>sdiv\<close> and \<open>smod\<close> where
    one can.
  \<^item> A \<open>float\<close> is the rational number it denotes. Every floating point operation
    rounds its exact result to the nearest binary32 value, ties to even (\<open>f32_norm\<close>).
  \<^item> A thrown exception is a value of \<open>error\<close>.
\<close>

type_synonym byte = "8 word"

datatype error =
    IllegalCharacter
  | MessageTooLong
  | NoFittingSymbol
  | InternalInvariant
  | InvalidArgument
  | OutOfRange
  | LengthError

subsection \<open>Constants\<close>

definition PAD :: int where "PAD = 129"
definition UPPER_SHIFT :: int where "UPPER_SHIFT = 235"
definition MACRO_05 :: int where "MACRO_05 = 236"
definition MACRO_06 :: int where "MACRO_06 = 237"
definition C40_UNLATCH :: int where "C40_UNLATCH = 254"
definition X12_UNLATCH :: int where "X12_UNLATCH = 254"

text \<open>
  The wide string literals \<open>L"[)>\x1E05\x1D"\<close>, \<open>L"[)>\x1E06\x1D"\<close> and
  \<open>L"\x1E\x04"\<close>. A hexadecimal escape takes every hexadecimal digit that follows
  it: \<open>\x1E05\<close> is the one wide character \<open>0x1E05\<close>, not \<open>0x1E\<close> and the digits
  \<open>05\<close>, and each header has five characters.
\<close>

type_synonym wstring = "int list"

definition MACRO_05_HEADER :: wstring where
  "MACRO_05_HEADER = [0x5B, 0x29, 0x3E, 0x1E05, 0x1D]"
definition MACRO_06_HEADER :: wstring where
  "MACRO_06_HEADER = [0x5B, 0x29, 0x3E, 0x1E06, 0x1D]"
definition MACRO_TRAILER :: wstring where
  "MACRO_TRAILER = [0x1E, 0x04]"

datatype Mode =
    ASCII_ENCODATION
  | C40_ENCODATION
  | TEXT_ENCODATION
  | X12_ENCODATION
  | EDIFACT_ENCODATION
  | BASE256_ENCODATION

definition all_modes :: "Mode list" where
  "all_modes = [ASCII_ENCODATION, C40_ENCODATION, TEXT_ENCODATION, X12_ENCODATION,
                EDIFACT_ENCODATION, BASE256_ENCODATION]"

fun LATCHES :: "Mode \<Rightarrow> int" where
  "LATCHES ASCII_ENCODATION = 0"
| "LATCHES C40_ENCODATION = 230"
| "LATCHES TEXT_ENCODATION = 239"
| "LATCHES X12_ENCODATION = 238"
| "LATCHES EDIFACT_ENCODATION = 240"
| "LATCHES BASE256_ENCODATION = 231"

subsection \<open>Character classes\<close>

definition IsDigit :: "int \<Rightarrow> bool" where
  "IsDigit ch \<longleftrightarrow> 48 \<le> ch \<and> ch \<le> 57"

definition IsExtendedASCII :: "int \<Rightarrow> bool" where
  "IsExtendedASCII ch \<longleftrightarrow> 128 \<le> ch \<and> ch \<le> 255"

definition IsNativeC40 :: "int \<Rightarrow> bool" where
  "IsNativeC40 ch \<longleftrightarrow> ch = 32 \<or> (48 \<le> ch \<and> ch \<le> 57) \<or> (65 \<le> ch \<and> ch \<le> 90)"

definition IsNativeText :: "int \<Rightarrow> bool" where
  "IsNativeText ch \<longleftrightarrow> ch = 32 \<or> (48 \<le> ch \<and> ch \<le> 57) \<or> (97 \<le> ch \<and> ch \<le> 122)"

definition IsX12TermSep :: "int \<Rightarrow> bool" where
  "IsX12TermSep ch \<longleftrightarrow> ch = 13 \<or> ch = 42 \<or> ch = 62"

definition IsNativeX12 :: "int \<Rightarrow> bool" where
  "IsNativeX12 ch \<longleftrightarrow>
     IsX12TermSep ch \<or> ch = 32 \<or> (48 \<le> ch \<and> ch \<le> 57) \<or> (65 \<le> ch \<and> ch \<le> 90)"

definition IsNativeEDIFACT :: "int \<Rightarrow> bool" where
  "IsNativeEDIFACT ch \<longleftrightarrow> 32 \<le> ch \<and> ch \<le> 94"

definition IsSpecialB256 :: "int \<Rightarrow> bool" where
  "IsSpecialB256 ch \<longleftrightarrow> False"

subsection \<open>Padding randomizer\<close>

definition Randomize253State :: "int \<Rightarrow> int \<Rightarrow> int" where
  "Randomize253State ch codewordPosition =
     (let pseudoRandom = ((149 * codewordPosition) mod 253) + 1;
          tempVariable = ch + pseudoRandom
      in if tempVariable \<le> 254 then tempVariable else tempVariable - 254)"

subsection \<open>Single precision arithmetic\<close>

text \<open>
  A \<open>float\<close> is the dyadic rational \<open>m * 2^e\<close> it denotes, kept as the pair
  \<open>Flt m e\<close>. Every operation computes its exact result and rounds it to 24
  significant bits, to nearest and ties to even, as IEEE 754 binary32 does in its
  normal range, which holds every value the look-ahead computes.
\<close>

datatype flt = Flt int int

definition pow2 :: "int \<Rightarrow> rat" where
  "pow2 e = (if 0 \<le> e then 2 ^ nat e else 1 / 2 ^ nat (- e))"

fun fval :: "flt \<Rightarrow> rat" where
  "fval (Flt m e) = of_int m * pow2 e"

text \<open>The number of binary digits of a positive integer.\<close>

function nbits :: "int \<Rightarrow> nat" where
  "nbits n = (if n \<le> 0 then 0 else Suc (nbits (n div 2)))"
  by pat_completeness auto
termination
  by (relation "measure nat") auto

declare nbits.simps [simp del]

text \<open>\<open>f32_norm M e\<close>: the exact value \<open>M * 2^e\<close> rounded to 24 significant bits.\<close>

definition f32_norm :: "int \<Rightarrow> int \<Rightarrow> flt" where
  "f32_norm M e =
     (let a = \<bar>M\<bar>; n = nbits a
      in if n \<le> 24 then Flt M e
         else let k = n - 24;
                  d = 2 ^ k;
                  q = a div d;
                  r = a mod d;
                  h = d div 2;
                  q' = (if r < h then q else if h < r then q + 1
                        else if even q then q else q + 1)
              in Flt (sgn M * q') (e + int k))"

fun fadd :: "flt \<Rightarrow> flt \<Rightarrow> flt" where
  "fadd (Flt m1 e1) (Flt m2 e2) =
     (let e0 = min e1 e2
      in f32_norm (m1 * 2 ^ nat (e1 - e0) + m2 * 2 ^ nat (e2 - e0)) e0)"

fun fmul :: "flt \<Rightarrow> flt \<Rightarrow> flt" where
  "fmul (Flt m1 e1) (Flt m2 e2) = f32_norm (m1 * m2) (e1 + e2)"

text \<open>
  The quotient of two positive integers: computed with at least two bits beyond the
  24 kept and a sticky bit for the remainder, then rounded.
\<close>

definition fdiv_int :: "int \<Rightarrow> int \<Rightarrow> flt" where
  "fdiv_int a b =
     (let s = 26 + nbits b;
          q = (a * 2 ^ s) div b;
          r = (a * 2 ^ s) mod b
      in f32_norm (2 * q + (if r = 0 then 0 else 1)) (- int s - 1))"

definition fint :: "int \<Rightarrow> flt" where
  "fint n = f32_norm n 0"

text \<open>\<open>static_cast<int>(std::ceil(x))\<close> and \<open>std::ceil(x)\<close>.\<close>

fun ceil_int :: "flt \<Rightarrow> int" where
  "ceil_int (Flt m e) = (if 0 \<le> e then m * 2 ^ nat e else - ((- m) div 2 ^ nat (- e)))"

definition fceil :: "flt \<Rightarrow> flt" where
  "fceil x = Flt (ceil_int x) 0"

subsection \<open>Look-ahead test (Annex P, steps J to R)\<close>

text \<open>The position of a mode in an array indexed by the encodation constants.\<close>

fun idx :: "Mode \<Rightarrow> nat" where
  "idx ASCII_ENCODATION = 0"
| "idx C40_ENCODATION = 1"
| "idx TEXT_ENCODATION = 2"
| "idx X12_ENCODATION = 3"
| "idx EDIFACT_ENCODATION = 4"
| "idx BASE256_ENCODATION = 5"

definition INT_MAX :: int where "INT_MAX = 2147483647"

text \<open>One iteration of the loop of \<open>FindMinimums\<close>, carrying \<open>(min, mins)\<close>.\<close>

definition FindMinimums_step :: "int list \<Rightarrow> int \<times> int list \<Rightarrow> nat \<Rightarrow> int \<times> int list" where
  "FindMinimums_step intCharCounts st i =
     (let current = intCharCounts ! i;
          (min1, mins1) = (if fst st > current then (current, replicate 6 0) else st);
          mins2 = (if min1 = current then mins1[i := mins1 ! i + 1] else mins1)
      in (min1, mins2))"

definition FindMinimums :: "int list \<Rightarrow> int \<Rightarrow> int \<times> int list" where
  "FindMinimums intCharCounts min0 =
     foldl (FindMinimums_step intCharCounts) (min0, replicate 6 0) [0 ..< 6]"

text \<open>Step J: the initial character counts.\<close>

definition stepJ :: "Mode \<Rightarrow> flt list" where
  "stepJ currentMode =
     (let charCounts = [Flt 1 (- 1), fint 1, fint 1, fint 1, fint 1, Flt 5 (- 2)];
          charCounts = (if currentMode \<noteq> ASCII_ENCODATION
                        then map (\<lambda>x. fmul x (fint 2)) charCounts else charCounts)
      in charCounts[idx currentMode := fint 0])"

definition ceil_counts :: "flt list \<Rightarrow> int list" where
  "ceil_counts charCounts = map ceil_int charCounts"

text \<open>Step K: the message is exhausted.\<close>

definition stepK :: "flt list \<Rightarrow> Mode" where
  "stepK charCounts =
     (let intCharCounts = ceil_counts charCounts;
          (min, mins) = FindMinimums intCharCounts INT_MAX;
          minCount = sum_list mins
      in if intCharCounts ! idx ASCII_ENCODATION = min then ASCII_ENCODATION
         else if minCount = 1 \<and> mins ! idx BASE256_ENCODATION > 0 then BASE256_ENCODATION
         else if minCount = 1 \<and> mins ! idx EDIFACT_ENCODATION > 0 then EDIFACT_ENCODATION
         else if minCount = 1 \<and> mins ! idx TEXT_ENCODATION > 0 then TEXT_ENCODATION
         else if minCount = 1 \<and> mins ! idx X12_ENCODATION > 0 then X12_ENCODATION
         else C40_ENCODATION)"

text \<open>Steps L to Q: the counts after the character \<open>c\<close>.\<close>

definition stepL :: "int \<Rightarrow> flt list \<Rightarrow> flt list" where
  "stepL c cc =
     (let a = idx ASCII_ENCODATION
      in if IsDigit c then cc[a := fadd (cc ! a) (Flt 1 (- 1))]
         else if IsExtendedASCII c then cc[a := fadd (fceil (cc ! a)) (fint 2)]
         else cc[a := fadd (fceil (cc ! a)) (fint 1)])"

definition stepM :: "int \<Rightarrow> flt list \<Rightarrow> flt list" where
  "stepM c cc =
     (let a = idx C40_ENCODATION
      in if IsNativeC40 c then cc[a := fadd (cc ! a) (fdiv_int 2 3)]
         else if IsExtendedASCII c then cc[a := fadd (cc ! a) (fdiv_int 8 3)]
         else cc[a := fadd (cc ! a) (fdiv_int 4 3)])"

definition stepN :: "int \<Rightarrow> flt list \<Rightarrow> flt list" where
  "stepN c cc =
     (let a = idx TEXT_ENCODATION
      in if IsNativeText c then cc[a := fadd (cc ! a) (fdiv_int 2 3)]
         else if IsExtendedASCII c then cc[a := fadd (cc ! a) (fdiv_int 8 3)]
         else cc[a := fadd (cc ! a) (fdiv_int 4 3)])"

definition stepO :: "int \<Rightarrow> flt list \<Rightarrow> flt list" where
  "stepO c cc =
     (let a = idx X12_ENCODATION
      in if IsNativeX12 c then cc[a := fadd (cc ! a) (fdiv_int 2 3)]
         else if IsExtendedASCII c then cc[a := fadd (cc ! a) (fdiv_int 13 3)]
         else cc[a := fadd (cc ! a) (fdiv_int 10 3)])"

definition stepP :: "int \<Rightarrow> flt list \<Rightarrow> flt list" where
  "stepP c cc =
     (let a = idx EDIFACT_ENCODATION
      in if IsNativeEDIFACT c then cc[a := fadd (cc ! a) (fdiv_int 3 4)]
         else if IsExtendedASCII c then cc[a := fadd (cc ! a) (fdiv_int 17 4)]
         else cc[a := fadd (cc ! a) (fdiv_int 13 4)])"

definition stepQ :: "int \<Rightarrow> flt list \<Rightarrow> flt list" where
  "stepQ c cc =
     (let a = idx BASE256_ENCODATION
      in if IsSpecialB256 c then cc[a := fadd (cc ! a) (fint 4)]
         else cc[a := fadd (cc ! a) (fint 1)])"

definition count_char :: "int \<Rightarrow> flt list \<Rightarrow> flt list" where
  "count_char c cc = stepQ c (stepP c (stepO c (stepN c (stepM c (stepL c cc)))))"

text \<open>
  The forward scan of step R from position \<open>p\<close>: X12 when an X12 terminator or
  separator comes before any character that is not native to X12, else C40.
\<close>

function x12_scan :: "byte list \<Rightarrow> nat \<Rightarrow> Mode" where
  "x12_scan msg p =
     (if p < length msg then
        (let tc = sint (msg ! p)
         in if IsX12TermSep tc then X12_ENCODATION
            else if \<not> IsNativeX12 tc then C40_ENCODATION
            else x12_scan msg (p + 1))
      else C40_ENCODATION)"
  by pat_completeness auto
termination
  by (relation "measure (\<lambda>(msg, p). length msg - p)") auto

declare x12_scan.simps [simp del]

text \<open>
  Step R, after \<open>charsProcessed\<close> characters (at least 4): the mode to return, or
  \<open>None\<close> when the loop goes on.
\<close>

definition stepR :: "byte list \<Rightarrow> nat \<Rightarrow> nat \<Rightarrow> flt list \<Rightarrow> Mode option" where
  "stepR msg startpos charsProcessed charCounts =
     (let ic = ceil_counts charCounts;
          (min, mins) = FindMinimums ic INT_MAX;
          minCount = sum_list mins;
          A = ic ! idx ASCII_ENCODATION; C = ic ! idx C40_ENCODATION;
          T = ic ! idx TEXT_ENCODATION; X = ic ! idx X12_ENCODATION;
          E = ic ! idx EDIFACT_ENCODATION; B = ic ! idx BASE256_ENCODATION
      in if A < B \<and> A < C \<and> A < T \<and> A < X \<and> A < E then Some ASCII_ENCODATION
         else if B < A \<or>
                 mins ! idx C40_ENCODATION + mins ! idx TEXT_ENCODATION
                   + mins ! idx X12_ENCODATION + mins ! idx EDIFACT_ENCODATION = 0
           then Some BASE256_ENCODATION
         else if minCount = 1 \<and> mins ! idx EDIFACT_ENCODATION > 0 then Some EDIFACT_ENCODATION
         else if minCount = 1 \<and> mins ! idx TEXT_ENCODATION > 0 then Some TEXT_ENCODATION
         else if minCount = 1 \<and> mins ! idx X12_ENCODATION > 0 then Some X12_ENCODATION
         else if C + 1 < A \<and> C + 1 < B \<and> C + 1 < E \<and> C + 1 < T then
           (if C < X then Some C40_ENCODATION
            else if C = X then Some (x12_scan msg (startpos + charsProcessed + 1))
            else None)
         else None)"

text \<open>
  The loop of \<open>LookAheadTest\<close>. \<open>None\<close> is the \<open>std::out_of_range\<close> of
  \<open>msg.at\<close>.
\<close>

function la_loop :: "byte list \<Rightarrow> nat \<Rightarrow> flt list \<Rightarrow> nat \<Rightarrow> Mode option" where
  "la_loop msg startpos charCounts charsProcessed =
     (if startpos + charsProcessed = length msg then Some (stepK charCounts)
      else if \<not> startpos + charsProcessed < length msg then None
      else
        (let c = sint (msg ! (startpos + charsProcessed));
             charsProcessed = charsProcessed + 1;
             charCounts = count_char c charCounts
         in if charsProcessed \<ge> 4 then
              (case stepR msg startpos charsProcessed charCounts of
                 Some m \<Rightarrow> Some m
               | None \<Rightarrow> la_loop msg startpos charCounts charsProcessed)
            else la_loop msg startpos charCounts charsProcessed))"
  by pat_completeness auto
termination
  by (relation "measure (\<lambda>(msg, startpos, cc, cp). length msg - (startpos + cp))") auto

declare la_loop.simps [simp del]

definition LookAheadTest :: "byte list \<Rightarrow> nat \<Rightarrow> Mode \<Rightarrow> Mode option" where
  "LookAheadTest msg startpos currentMode =
     (if startpos \<ge> length msg then Some currentMode
      else la_loop msg startpos (stepJ currentMode) 0)"

subsection \<open>Encoder context\<close>

text \<open>
  Modelled from the spec: the class \<open>EncoderContext\<close> (DMEncoderContext.h) and the
  symbol-info catalog behind it are not among the sources. The context holds the input
  octets, the cursor, the emitted codewords, the pending mode switch (none is the
  source's \<open>-1\<close>), the locked symbol and the number of trailing octets to skip. Of a
  symbol only its data capacity is read, so a symbol is its capacity, and the catalog
  with the shape and size constraints of the run is a function \<open>sel\<close> from the
  requested number of data codewords to the capacity of the selected symbol, \<open>None\<close>
  when no symbol fits. \<open>currentChar\<close> and \<open>nextChar\<close> give the octet under the cursor
  as a number from 0 to 255 (the message is a sequence of octets), and \<open>addCodeword\<close>
  takes an \<open>int\<close> (the codewords are handed out as a \<open>std::vector<int>\<close>).
\<close>

type_synonym catalog = "int \<Rightarrow> int option"

record EncoderContext =
  message :: "byte list"
  codewords :: "int list"
  currentPos :: int
  newEncoding :: "Mode option"
  symbolInfo :: "int option"
  skipAtEnd :: int

text \<open>The outcome of an operation on the context: it returns, or it throws with the
  context as it is at the throw.\<close>

datatype 'a outcome = Normal 'a | Throw error EncoderContext

definition new_context :: "byte list \<Rightarrow> EncoderContext" where
  "new_context bytes =
     \<lparr>message = bytes, codewords = [], currentPos = 0, newEncoding = None,
      symbolInfo = None, skipAtEnd = 0\<rparr>"

text \<open>\<open>std::string::at\<close> with an \<open>int\<close> index: out of range throws.\<close>

definition str_at :: "byte list \<Rightarrow> int \<Rightarrow> byte option" where
  "str_at s i = (if 0 \<le> i \<and> i < int (length s) then Some (s ! nat i) else None)"

text \<open>An \<open>int\<close> passed for a \<open>size_t\<close>.\<close>

definition size_t_of :: "int \<Rightarrow> nat" where
  "size_t_of i = nat (i mod 2 ^ 64)"

definition totalMessageCharCount :: "EncoderContext \<Rightarrow> int" where
  "totalMessageCharCount ctx = int (length (message ctx)) - skipAtEnd ctx"

definition hasMoreCharacters :: "EncoderContext \<Rightarrow> bool" where
  "hasMoreCharacters ctx \<longleftrightarrow> currentPos ctx < totalMessageCharCount ctx"

definition remainingCharacters :: "EncoderContext \<Rightarrow> int" where
  "remainingCharacters ctx = totalMessageCharCount ctx - currentPos ctx"

definition currentChar :: "EncoderContext \<Rightarrow> int option" where
  "currentChar ctx = map_option uint (str_at (message ctx) (currentPos ctx))"

definition nextChar :: "EncoderContext \<Rightarrow> int option" where
  "nextChar ctx = map_option uint (str_at (message ctx) (currentPos ctx + 1))"

definition codewordCount :: "EncoderContext \<Rightarrow> int" where
  "codewordCount ctx = int (length (codewords ctx))"

definition addCodeword :: "EncoderContext \<Rightarrow> int \<Rightarrow> EncoderContext" where
  "addCodeword ctx cw = ctx\<lparr>codewords := codewords ctx @ [cw]\<rparr>"

definition setCurrentPos :: "EncoderContext \<Rightarrow> int \<Rightarrow> EncoderContext" where
  "setCurrentPos ctx p = ctx\<lparr>currentPos := p\<rparr>"

definition setNewEncoding :: "EncoderContext \<Rightarrow> Mode \<Rightarrow> EncoderContext" where
  "setNewEncoding ctx m = ctx\<lparr>newEncoding := Some m\<rparr>"

definition clearNewEncoding :: "EncoderContext \<Rightarrow> EncoderContext" where
  "clearNewEncoding ctx = ctx\<lparr>newEncoding := None\<rparr>"

definition setSkipAtEnd :: "EncoderContext \<Rightarrow> int \<Rightarrow> EncoderContext" where
  "setSkipAtEnd ctx n = ctx\<lparr>skipAtEnd := n\<rparr>"

definition resetSymbolInfo :: "EncoderContext \<Rightarrow> EncoderContext" where
  "resetSymbolInfo ctx = ctx\<lparr>symbolInfo := None\<rparr>"

text \<open>
  \<open>updateSymbolInfo len\<close> keeps the locked symbol while it holds \<open>len\<close> codewords and
  selects anew otherwise; it returns the capacity of the locked symbol.
\<close>

definition updateSymbolInfo :: "catalog \<Rightarrow> EncoderContext \<Rightarrow> int \<Rightarrow> (EncoderContext \<times> int) outcome" where
  "updateSymbolInfo sel ctx len =
     (case (case symbolInfo ctx of None \<Rightarrow> None
                                 | Some cap \<Rightarrow> if len > cap then None else Some cap) of
        Some cap \<Rightarrow> Normal (ctx, cap)
      | None \<Rightarrow>
          (case sel len of
             None \<Rightarrow> Throw NoFittingSymbol ctx
           | Some cap \<Rightarrow> Normal (ctx\<lparr>symbolInfo := Some cap\<rparr>, cap)))"

subsection \<open>ASCII encoder\<close>

definition DetermineConsecutiveDigitCount :: "byte list \<Rightarrow> int \<Rightarrow> int" where
  "DetermineConsecutiveDigitCount msg startpos =
     int (length (takeWhile (\<lambda>ch. IsDigit (sint ch)) (drop (nat startpos) msg)))"

definition EncodeASCIIDigits :: "int \<Rightarrow> int \<Rightarrow> int" where
  "EncodeASCIIDigits digit_1 digit_2 =
     (if IsDigit digit_1 \<and> IsDigit digit_2
      then (let num = (digit_1 - 48) * 10 + (digit_2 - 48) in num + 130)
      else 63)"

definition EncodeASCII :: "EncoderContext \<Rightarrow> EncoderContext outcome" where
  "EncodeASCII ctx =
     (let n = DetermineConsecutiveDigitCount (message ctx) (currentPos ctx)
      in if n \<ge> 2 then
           (case currentChar ctx of
              None \<Rightarrow> Throw OutOfRange ctx
            | Some d1 \<Rightarrow>
                (case nextChar ctx of
                   None \<Rightarrow> Throw OutOfRange ctx
                 | Some d2 \<Rightarrow>
                     (let ctx = addCodeword ctx (EncodeASCIIDigits d1 d2)
                      in Normal (setCurrentPos ctx (currentPos ctx + 2)))))
         else
           (case currentChar ctx of
              None \<Rightarrow> Throw OutOfRange ctx
            | Some c \<Rightarrow>
                (case LookAheadTest (message ctx) (size_t_of (currentPos ctx)) ASCII_ENCODATION of
                   None \<Rightarrow> Throw OutOfRange ctx
                 | Some newMode \<Rightarrow>
                     if newMode \<noteq> ASCII_ENCODATION then
                       (let ctx = addCodeword ctx (LATCHES newMode)
                        in Normal (setNewEncoding ctx newMode))
                     else if IsExtendedASCII c then
                       (let ctx = addCodeword ctx UPPER_SHIFT;
                            ctx = addCodeword ctx (c - 128 + 1)
                        in Normal (setCurrentPos ctx (currentPos ctx + 1)))
                     else
                       (let ctx = addCodeword ctx (c + 1)
                        in Normal (setCurrentPos ctx (currentPos ctx + 1))))))"

subsection \<open>C40 and Text encoders\<close>

text \<open>
  \<open>C40Encoder::EncodeChar(char c, std::string& sb)\<close> compares the \<open>char\<close> with
  character literals: both sides are promoted to \<open>int\<close>, and \<open>'\x80'\<close> is -128. The
  test \<open>c >= '\x80'\<close> is reached by the octets from 128 only (the tests before it take
  every value from 0 to 127) and holds of each of them. \<open>DMTextEncoder::EncodeChar\<close>
  takes an \<open>int\<close>, and its recursive call passes a \<open>char\<close> for it.
\<close>

lemma sint_char_cast: "sint (word_of_int x :: byte) = (x + 128) mod 256 - 128"
  by (simp add: int_word_sint)

lemma sint_char_range: "- 128 \<le> sint (c :: byte) \<and> sint c \<le> 127"
  using sint_ge [of c] sint_lt [of c] by simp

lemma neg_mod_256: "- 128 \<le> (x :: int) \<Longrightarrow> x < 0 \<Longrightarrow> x mod 256 = x + 256"
proof -
  assume a: "- 128 \<le> x" "x < 0"
  have "x mod 256 = (x + 256) mod 256" by simp
  also from a have "\<dots> = x + 256" by (intro mod_pos_pos_trivial) linarith+
  finally show ?thesis .
qed

lemma sint_char_minus_128:
  "sint (c :: byte) < 0 \<Longrightarrow> 0 \<le> sint (word_of_int (sint c - 128) :: byte)"
proof -
  assume a: "sint c < 0"
  have "- 128 \<le> sint c" using sint_char_range [of c] by simp
  have lo: "- 128 \<le> sint c" using sint_char_range [of c] by simp
  from lo a have "sint c mod 256 = sint c + 256" by (rule neg_mod_256)
  with lo show ?thesis by (simp only: sint_char_cast) simp
qed

function C40_EncodeChar :: "byte \<Rightarrow> byte list \<Rightarrow> error + (byte list \<times> int)" where
  "C40_EncodeChar c sb =
     (let ci = sint c
      in if ci = 32 then Inr (sb @ [3], 1)
         else if 48 \<le> ci \<and> ci \<le> 57 then Inr (sb @ [word_of_int (ci - 48 + 4)], 1)
         else if 65 \<le> ci \<and> ci \<le> 90 then Inr (sb @ [word_of_int (ci - 65 + 14)], 1)
         else if 0 \<le> ci \<and> ci \<le> 31 then Inr (sb @ [0, c], 2)
         else if 33 \<le> ci \<and> ci \<le> 47 then Inr (sb @ [1, word_of_int (ci - 33)], 2)
         else if 58 \<le> ci \<and> ci \<le> 64 then Inr (sb @ [1, word_of_int (ci - 58 + 15)], 2)
         else if 91 \<le> ci \<and> ci \<le> 95 then Inr (sb @ [1, word_of_int (ci - 91 + 22)], 2)
         else if 96 \<le> ci \<and> ci \<le> 127 then Inr (sb @ [2, word_of_int (ci - 96)], 2)
         else if sint (0x80 :: byte) \<le> ci then
           (case C40_EncodeChar (word_of_int (ci - 128)) (sb @ [1, 0x1E]) of
              Inl e \<Rightarrow> Inl e
            | Inr (sb', n) \<Rightarrow> Inr (sb', 2 + n))
         else Inl IllegalCharacter)"
  by pat_completeness auto
termination
proof (relation "measure (\<lambda>(c, sb). if sint c < 0 then 1 else 0)")
  show "wf (measure (\<lambda>(c :: byte, sb :: byte list). if sint c < 0 then 1 else 0))" by simp
next
  fix c :: byte and sb :: "byte list" and ci :: int
  assume ci: "ci = sint c"
    and n: "ci \<noteq> 32" "\<not> (48 \<le> ci \<and> ci \<le> 57)" "\<not> (65 \<le> ci \<and> ci \<le> 90)"
      "\<not> (0 \<le> ci \<and> ci \<le> 31)" "\<not> (33 \<le> ci \<and> ci \<le> 47)" "\<not> (58 \<le> ci \<and> ci \<le> 64)"
      "\<not> (91 \<le> ci \<and> ci \<le> 95)" "\<not> (96 \<le> ci \<and> ci \<le> 127)"
  from n sint_char_range [of c] have neg: "sint c < 0" unfolding ci by linarith
  from sint_char_minus_128 [OF neg] neg
  show "((word_of_int (ci - 128), sb @ [1, 0x1E]), (c, sb))
          \<in> measure (\<lambda>(c, sb). if sint c < 0 then 1 else 0)"
    unfolding ci by simp
qed

declare C40_EncodeChar.simps [simp del]

function Text_EncodeChar :: "int \<Rightarrow> byte list \<Rightarrow> error + (byte list \<times> int)" where
  "Text_EncodeChar c sb =
     (if c = 32 then Inr (sb @ [3], 1)
      else if 48 \<le> c \<and> c \<le> 57 then Inr (sb @ [word_of_int (c - 48 + 4)], 1)
      else if 97 \<le> c \<and> c \<le> 122 then Inr (sb @ [word_of_int (c - 97 + 14)], 1)
      else if 0 \<le> c \<and> c \<le> 31 then Inr (sb @ [0, word_of_int c], 2)
      else if 33 \<le> c \<and> c \<le> 47 then Inr (sb @ [1, word_of_int (c - 33)], 2)
      else if 58 \<le> c \<and> c \<le> 64 then Inr (sb @ [1, word_of_int (c - 58 + 15)], 2)
      else if 91 \<le> c \<and> c \<le> 95 then Inr (sb @ [1, word_of_int (c - 91 + 22)], 2)
      else if c = 96 then Inr (sb @ [2, word_of_int (c - 96)], 2)
      else if 65 \<le> c \<and> c \<le> 90 then Inr (sb @ [2, word_of_int (c - 65 + 1)], 2)
      else if 123 \<le> c \<and> c \<le> 127 then Inr (sb @ [2, word_of_int (c - 123 + 27)], 2)
      else if sint (0x80 :: byte) \<le> c then
        (case Text_EncodeChar (sint (word_of_int (c - 128) :: byte)) (sb @ [1, 0x1E]) of
           Inl e \<Rightarrow> Inl e
         | Inr (sb', n) \<Rightarrow> Inr (sb', 2 + n))
      else Inl IllegalCharacter)"
  by pat_completeness auto
termination
proof (relation "measure (\<lambda>(c, sb). if 127 < c then 2 else if c < 0 then 1 else 0)")
  show "wf (measure (\<lambda>(c :: int, sb :: byte list). if 127 < c then 2 else if c < 0 then 1 else 0))"
    by simp
next
  fix c :: int and sb :: "byte list"
  assume n: "c \<noteq> 32" "\<not> (48 \<le> c \<and> c \<le> 57)" "\<not> (97 \<le> c \<and> c \<le> 122)"
      "\<not> (0 \<le> c \<and> c \<le> 31)" "\<not> (33 \<le> c \<and> c \<le> 47)" "\<not> (58 \<le> c \<and> c \<le> 64)"
      "\<not> (91 \<le> c \<and> c \<le> 95)" "c \<noteq> 96" "\<not> (65 \<le> c \<and> c \<le> 90)"
      "\<not> (123 \<le> c \<and> c \<le> 127)"
    and a: "sint (0x80 :: byte) \<le> c"
  define r where "r = sint (word_of_int (c - 128) :: byte)"
  have r: "r = c mod 256 - 128" unfolding r_def by (simp only: sint_char_cast) simp
  have lo: "- 128 \<le> c" using a by simp
  from n have out: "c < 0 \<or> 127 < c" by linarith
  have "(if 127 < r then 2 else if r < 0 then 1 else 0 :: nat)
          < (if 127 < c then 2 else if c < 0 then 1 else 0)"
  proof (cases "127 < c")
    case True
    have "c mod 256 < 256" by simp
    then have "c mod 256 - 128 \<le> 127" by linarith
    with True show ?thesis unfolding r by simp
  next
    case False
    with out have "c < 0" by linarith
    with lo have "c mod 256 = c + 256" by (rule neg_mod_256)
    with False out lo show ?thesis unfolding r by simp
  qed
  then show "((sint (word_of_int (c - 128) :: byte), sb @ [1, 0x1E]), (c, sb))
      \<in> measure (\<lambda>(c, sb). if 127 < c then 2 else if c < 0 then 1 else 0)"
    unfolding r_def by (simp only: in_measure prod.case)
qed

declare Text_EncodeChar.simps [simp del]

text \<open>\<open>std::string::resize\<close> to a length given as an \<open>int\<close>: a negative one is a huge
  \<open>size_t\<close> and throws.\<close>

definition string_resize :: "byte list \<Rightarrow> int \<Rightarrow> byte list option" where
  "string_resize s n =
     (if n < 0 then None
      else Some (take (nat n) s @ replicate (nat n - length s) 0))"

definition BacktrackOneCharacter ::
  "EncoderContext \<Rightarrow> byte list \<Rightarrow> byte list \<Rightarrow> int
     \<Rightarrow> (EncoderContext \<times> byte list \<times> byte list \<times> int) outcome" where
  "BacktrackOneCharacter ctx buffer removed lastCharSize =
     (case string_resize buffer (int (length buffer) - lastCharSize) of
        None \<Rightarrow> Throw LengthError ctx
      | Some buffer \<Rightarrow>
          (let ctx = setCurrentPos ctx (currentPos ctx - 1)
           in case currentChar ctx of
                None \<Rightarrow> Throw OutOfRange ctx
              | Some c \<Rightarrow>
                  (case C40_EncodeChar (word_of_int c) removed of
                     Inl e \<Rightarrow> Throw e ctx
                   | Inr (removed, lastCharSize) \<Rightarrow>
                       Normal (resetSymbolInfo ctx, buffer, removed, lastCharSize))))"

definition EncodeToCodewords :: "EncoderContext \<Rightarrow> byte list \<Rightarrow> int \<Rightarrow> EncoderContext outcome" where
  "EncodeToCodewords ctx sb startPos =
     (case (str_at sb startPos, str_at sb (startPos + 1), str_at sb (startPos + 2)) of
        (Some b1, Some b2, Some b3) \<Rightarrow>
          (let c1 = sint b1; c2 = sint b2; c3 = sint b3;
               v = (1600 * c1) + (40 * c2) + c3 + 1;
               ctx = addCodeword ctx (v sdiv 256)
           in Normal (addCodeword ctx (v smod 256)))
      | _ \<Rightarrow> Throw OutOfRange ctx)"

definition WriteNextTriplet :: "EncoderContext \<Rightarrow> byte list \<Rightarrow> (EncoderContext \<times> byte list) outcome" where
  "WriteNextTriplet ctx buffer =
     (case EncodeToCodewords ctx buffer 0 of
        Throw e c \<Rightarrow> Throw e c
      | Normal ctx \<Rightarrow> Normal (ctx, drop 3 buffer))"

lemma WriteNextTriplet_buffer:
  "WriteNextTriplet ctx buffer = Normal (ctx', buffer') \<Longrightarrow> buffer' = drop 3 buffer"
  by (auto simp: WriteNextTriplet_def split: outcome.splits)

text \<open>The loop \<open>while (buffer.length() >= 3) WriteNextTriplet(context, buffer)\<close>.\<close>

function write_triplets :: "EncoderContext \<Rightarrow> byte list \<Rightarrow> (EncoderContext \<times> byte list) outcome" where
  "write_triplets ctx buffer =
     (if length buffer \<ge> 3 then
        (case WriteNextTriplet ctx buffer of
           Throw e c \<Rightarrow> Throw e c
         | Normal (ctx', buffer') \<Rightarrow> write_triplets ctx' buffer')
      else Normal (ctx, buffer))"
  by pat_completeness auto
termination
  by (relation "measure (\<lambda>(ctx, buffer). length buffer)")
     (auto dest: WriteNextTriplet_buffer)

declare write_triplets.simps [simp del]

definition C40_HandleEOD :: "catalog \<Rightarrow> EncoderContext \<Rightarrow> byte list \<Rightarrow> (EncoderContext \<times> byte list) outcome" where
  "C40_HandleEOD sel ctx buffer =
     (let unwritten = (int (length buffer) div 3) * 2;
          rest = int (length buffer) mod 3;
          curCodewordCount = codewordCount ctx + unwritten
      in case updateSymbolInfo sel ctx curCodewordCount of
           Throw e c \<Rightarrow> Throw e c
         | Normal (ctx, capacity) \<Rightarrow>
             (let available = capacity - curCodewordCount
              in case
                   (if rest = 2 then
                      (case write_triplets ctx (buffer @ [0]) of
                         Throw e c \<Rightarrow> Throw e c
                       | Normal (ctx, buffer) \<Rightarrow>
                           Normal (if hasMoreCharacters ctx then addCodeword ctx C40_UNLATCH else ctx,
                                   buffer))
                    else if available = 1 \<and> rest = 1 then
                      (case write_triplets ctx buffer of
                         Throw e c \<Rightarrow> Throw e c
                       | Normal (ctx, buffer) \<Rightarrow>
                           (let ctx = (if hasMoreCharacters ctx then addCodeword ctx C40_UNLATCH else ctx)
                            in Normal (setCurrentPos ctx (currentPos ctx - 1), buffer)))
                    else if rest = 0 then
                      (case write_triplets ctx buffer of
                         Throw e c \<Rightarrow> Throw e c
                       | Normal (ctx, buffer) \<Rightarrow>
                           Normal (if available > 0 \<or> hasMoreCharacters ctx
                                   then addCodeword ctx C40_UNLATCH else ctx, buffer))
                    else Throw InternalInvariant ctx)
                 of Throw e c \<Rightarrow> Throw e c
                  | Normal (ctx, buffer) \<Rightarrow> Normal (setNewEncoding ctx ASCII_ENCODATION, buffer)))"

lemma updateSymbolInfo_frame:
  "updateSymbolInfo sel ctx len = Normal (ctx', cap) \<Longrightarrow>
     message ctx' = message ctx \<and> currentPos ctx' = currentPos ctx \<and>
     skipAtEnd ctx' = skipAtEnd ctx \<and> codewords ctx' = codewords ctx \<and>
     newEncoding ctx' = newEncoding ctx \<and> symbolInfo ctx' = Some cap"
  by (auto simp: updateSymbolInfo_def split: option.splits if_splits)

lemma BacktrackOneCharacter_pos:
  "BacktrackOneCharacter ctx buffer removed l = Normal (ctx', buffer', removed', l') \<Longrightarrow>
     currentPos ctx' = currentPos ctx - 1 \<and> 0 \<le> currentPos ctx'"
  by (auto simp: BacktrackOneCharacter_def Let_def setCurrentPos_def resetSymbolInfo_def
        currentChar_def str_at_def split: option.splits sum.splits if_splits)

text \<open>The loop \<open>while ((buffer.length() % 3) == 1 && ...)\<close> of the tail adjustment.\<close>

function backtrack_while ::
  "EncoderContext \<Rightarrow> byte list \<Rightarrow> byte list \<Rightarrow> int \<Rightarrow> int
     \<Rightarrow> (EncoderContext \<times> byte list \<times> byte list \<times> int) outcome" where
  "backtrack_while ctx buffer removed lastCharSize available =
     (if length buffer mod 3 = 1 \<and>
         ((lastCharSize \<le> 3 \<and> available \<noteq> 1) \<or> lastCharSize > 3) then
        (case BacktrackOneCharacter ctx buffer removed lastCharSize of
           Throw e c \<Rightarrow> Throw e c
         | Normal (ctx', buffer', removed', lastCharSize') \<Rightarrow>
             backtrack_while ctx' buffer' removed' lastCharSize' available)
      else Normal (ctx, buffer, removed, lastCharSize))"
  by pat_completeness auto
termination
  by (relation "measure (\<lambda>(ctx, buffer, removed, l, a). nat (currentPos ctx))")
     (auto dest!: BacktrackOneCharacter_pos)

declare backtrack_while.simps [simp del]

text \<open>The branch \<open>if (!context.hasMoreCharacters())\<close> of the loop of \<open>EncodeC40\<close>.\<close>

definition tail_adjust ::
  "EncoderContext \<Rightarrow> byte list \<Rightarrow> int \<Rightarrow> int \<Rightarrow> (EncoderContext \<times> byte list) outcome" where
  "tail_adjust ctx buffer lastCharSize available =
     (let removed = []
      in case (if length buffer mod 3 = 2 \<and> (available < 2 \<or> available > 2)
               then BacktrackOneCharacter ctx buffer removed lastCharSize
               else Normal (ctx, buffer, removed, lastCharSize)) of
           Throw e c \<Rightarrow> Throw e c
         | Normal (ctx, buffer, removed, lastCharSize) \<Rightarrow>
             (case backtrack_while ctx buffer removed lastCharSize available of
                Throw e c \<Rightarrow> Throw e c
              | Normal (ctx, buffer, removed, lastCharSize) \<Rightarrow> Normal (ctx, buffer)))"

function C40_loop ::
  "catalog \<Rightarrow> (int \<Rightarrow> byte list \<Rightarrow> error + (byte list \<times> int)) \<Rightarrow> Mode
     \<Rightarrow> EncoderContext \<Rightarrow> byte list \<Rightarrow> (EncoderContext \<times> byte list) outcome" where
  "C40_loop sel encodeChar encodingMode ctx buffer =
     (if \<not> hasMoreCharacters ctx then Normal (ctx, buffer)
      else case currentChar ctx of
        None \<Rightarrow> Throw OutOfRange ctx
      | Some c \<Rightarrow>
          (let ctx1 = setCurrentPos ctx (currentPos ctx + 1)
           in case encodeChar c buffer of
             Inl e \<Rightarrow> Throw e ctx1
           | Inr (buffer', lastCharSize) \<Rightarrow>
               (let unwritten = (int (length buffer') div 3) * 2;
                    curCodewordCount = codewordCount ctx1 + unwritten
                in case updateSymbolInfo sel ctx1 curCodewordCount of
                     Throw e c \<Rightarrow> Throw e c
                   | Normal (ctx', capacity) \<Rightarrow>
                       (let available = capacity - curCodewordCount
                        in if \<not> hasMoreCharacters ctx' then
                             tail_adjust ctx' buffer' lastCharSize available
                           else if length buffer' mod 3 = 0 then
                             (case LookAheadTest (message ctx') (size_t_of (currentPos ctx'))
                                     encodingMode of
                                None \<Rightarrow> Throw OutOfRange ctx'
                              | Some newMode \<Rightarrow>
                                  if newMode \<noteq> encodingMode
                                  then Normal (setNewEncoding ctx' newMode, buffer')
                                  else C40_loop sel encodeChar encodingMode ctx' buffer')
                           else C40_loop sel encodeChar encodingMode ctx' buffer'))))"
  by pat_completeness auto
termination
  by (relation "measure (\<lambda>(sel, enc, m, ctx, buffer).
                  nat (totalMessageCharCount ctx - currentPos ctx))")
     (auto simp: hasMoreCharacters_def totalMessageCharCount_def setCurrentPos_def
           dest!: updateSymbolInfo_frame)

declare C40_loop.simps [simp del]

definition EncodeC40_with ::
  "catalog \<Rightarrow> (int \<Rightarrow> byte list \<Rightarrow> error + (byte list \<times> int)) \<Rightarrow> Mode
     \<Rightarrow> EncoderContext \<Rightarrow> EncoderContext outcome" where
  "EncodeC40_with sel encodeChar encodingMode ctx =
     (case C40_loop sel encodeChar encodingMode ctx [] of
        Throw e c \<Rightarrow> Throw e c
      | Normal (ctx, buffer) \<Rightarrow>
          (case C40_HandleEOD sel ctx buffer of
             Throw e c \<Rightarrow> Throw e c
           | Normal (ctx, buffer) \<Rightarrow> Normal ctx))"

text \<open>\<open>C40Encoder::EncodeChar\<close> takes a \<open>char\<close>: the \<open>int\<close> it is called with is cast.\<close>

definition EncodeC40 :: "catalog \<Rightarrow> EncoderContext \<Rightarrow> EncoderContext outcome" where
  "EncodeC40 sel ctx =
     EncodeC40_with sel (\<lambda>c. C40_EncodeChar (word_of_int c)) C40_ENCODATION ctx"

definition EncodeText :: "catalog \<Rightarrow> EncoderContext \<Rightarrow> EncoderContext outcome" where
  "EncodeText sel ctx = EncodeC40_with sel Text_EncodeChar C40_ENCODATION ctx"

subsection \<open>X12 encoder\<close>

definition X12_EncodeChar :: "int \<Rightarrow> byte list \<Rightarrow> error + (byte list \<times> int)" where
  "X12_EncodeChar c sb =
     (if c = 13 then Inr (sb @ [0], 1)
      else if c = 42 then Inr (sb @ [1], 1)
      else if c = 62 then Inr (sb @ [2], 1)
      else if c = 32 then Inr (sb @ [3], 1)
      else if 48 \<le> c \<and> c \<le> 57 then Inr (sb @ [word_of_int (c - 48 + 4)], 1)
      else if 65 \<le> c \<and> c \<le> 90 then Inr (sb @ [word_of_int (c - 65 + 14)], 1)
      else Inl IllegalCharacter)"

text \<open>
  \<open>X12Encoder::HandleEOD(EncoderContext context, std::string& buffer)\<close> takes the
  context by value: the function below works on its own copy and gives the copy as it
  is when the function returns. The caller's context is not touched.
\<close>

definition X12_HandleEOD :: "catalog \<Rightarrow> EncoderContext \<Rightarrow> byte list \<Rightarrow> EncoderContext outcome" where
  "X12_HandleEOD sel ctx buffer =
     (let count = codewordCount ctx
      in case updateSymbolInfo sel ctx count of
           Throw e c \<Rightarrow> Throw e c
         | Normal (ctx, capacity) \<Rightarrow>
             (let available = capacity - count;
                  ctx = setCurrentPos ctx (currentPos ctx - int (length buffer));
                  ctx = (if remainingCharacters ctx > 1 \<or> available > 1 \<or>
                            remainingCharacters ctx \<noteq> available
                         then addCodeword ctx X12_UNLATCH else ctx);
                  ctx = (if newEncoding ctx = None
                         then setNewEncoding ctx ASCII_ENCODATION else ctx)
              in Normal ctx))"

lemma WriteNextTriplet_frame:
  "WriteNextTriplet ctx buffer = Normal (ctx', buffer') \<Longrightarrow>
     message ctx' = message ctx \<and> currentPos ctx' = currentPos ctx \<and>
     skipAtEnd ctx' = skipAtEnd ctx \<and> newEncoding ctx' = newEncoding ctx \<and>
     symbolInfo ctx' = symbolInfo ctx"
  by (auto simp: WriteNextTriplet_def EncodeToCodewords_def addCodeword_def Let_def
        split: outcome.splits option.splits)

function X12_loop :: "EncoderContext \<Rightarrow> byte list \<Rightarrow> (EncoderContext \<times> byte list) outcome" where
  "X12_loop ctx buffer =
     (if \<not> hasMoreCharacters ctx then Normal (ctx, buffer)
      else case currentChar ctx of
        None \<Rightarrow> Throw OutOfRange ctx
      | Some c \<Rightarrow>
          (let ctx1 = setCurrentPos ctx (currentPos ctx + 1)
           in case X12_EncodeChar c buffer of
             Inl e \<Rightarrow> Throw e ctx1
           | Inr (buffer1, n) \<Rightarrow>
               (let count = length buffer1
                in if count mod 3 = 0 then
                     (case WriteNextTriplet ctx1 buffer1 of
                        Throw e c \<Rightarrow> Throw e c
                      | Normal (ctx', buffer') \<Rightarrow>
                          (case LookAheadTest (message ctx') (size_t_of (currentPos ctx'))
                                  X12_ENCODATION of
                             None \<Rightarrow> Throw OutOfRange ctx'
                           | Some newMode \<Rightarrow>
                               if newMode \<noteq> X12_ENCODATION
                               then Normal (setNewEncoding ctx' newMode, buffer')
                               else X12_loop ctx' buffer'))
                   else X12_loop ctx1 buffer1)))"
  by pat_completeness auto
termination
  by (relation "measure (\<lambda>(ctx, buffer). nat (totalMessageCharCount ctx - currentPos ctx))")
     (auto simp: hasMoreCharacters_def totalMessageCharCount_def setCurrentPos_def
           dest!: WriteNextTriplet_frame)

declare X12_loop.simps [simp del]

definition EncodeX12 :: "catalog \<Rightarrow> EncoderContext \<Rightarrow> EncoderContext outcome" where
  "EncodeX12 sel ctx =
     (case X12_loop ctx [] of
        Throw e c \<Rightarrow> Throw e c
      | Normal (ctx, buffer) \<Rightarrow>
          (case X12_HandleEOD sel ctx buffer of
             Throw e copy \<Rightarrow> Throw e ctx
           | Normal copy \<Rightarrow> Normal ctx))"

subsection \<open>EDIFACT encoder\<close>

definition Edifact_EncodeChar :: "int \<Rightarrow> byte list \<Rightarrow> error + byte list" where
  "Edifact_EncodeChar c sb =
     (if 32 \<le> c \<and> c \<le> 63 then Inr (sb @ [word_of_int c])
      else if 64 \<le> c \<and> c \<le> 94 then Inr (sb @ [word_of_int (c - 64)])
      else Inl IllegalCharacter)"

definition Edifact_EncodeToCodewords :: "byte list \<Rightarrow> int \<Rightarrow> error + int list" where
  "Edifact_EncodeToCodewords sb startPos =
     (let len = int (length sb) - startPos
      in if len = 0 then Inl InvalidArgument
         else case str_at sb startPos of
           None \<Rightarrow> Inl OutOfRange
         | Some b1 \<Rightarrow>
             (case (if len \<ge> 2 then str_at sb (startPos + 1) else Some 0,
                    if len \<ge> 3 then str_at sb (startPos + 2) else Some 0,
                    if len \<ge> 4 then str_at sb (startPos + 3) else Some 0) of
                (Some b2, Some b3, Some b4) \<Rightarrow>
                  (let c1 = sint b1; c2 = sint b2; c3 = sint b3; c4 = sint b4;
                       v = push_bit 18 c1 + push_bit 12 c2 + push_bit 6 c3 + c4;
                       cw1 = drop_bit 16 v AND 255;
                       cw2 = drop_bit 8 v AND 255;
                       cw3 = v AND 255
                   in Inr ([cw1] @ (if len \<ge> 2 then [cw2] else [])
                                 @ (if len \<ge> 3 then [cw3] else [])))
              | _ \<Rightarrow> Inl OutOfRange))"

text \<open>\<open>for (int cw : codewords) context.addCodeword(cw)\<close>.\<close>

definition addCodewords :: "EncoderContext \<Rightarrow> int list \<Rightarrow> EncoderContext" where
  "addCodewords ctx cws = foldl addCodeword ctx cws"

text \<open>
  The \<open>try\<close> block of \<open>EdifactEncoder::HandleEOD\<close>. The flag of a normal outcome
  tells that the block was left by one of its \<open>return\<close> statements.
\<close>

definition Edifact_HandleEOD_try ::
  "catalog \<Rightarrow> EncoderContext \<Rightarrow> byte list \<Rightarrow> (EncoderContext \<times> bool) outcome" where
  "Edifact_HandleEOD_try sel ctx buffer =
     (let count = int (length buffer)
      in if count = 0 then Normal (ctx, True)
         else case (if count = 1 then
                      (let n = codewordCount ctx
                       in case updateSymbolInfo sel ctx n of
                            Throw e c \<Rightarrow> Throw e c
                          | Normal (ctx, capacity) \<Rightarrow>
                              (let available = capacity - n;
                                   remaining = remainingCharacters ctx
                               in Normal (ctx, remaining = 0 \<and> available \<le> 2)))
                    else Normal (ctx, False)) of
           Throw e c \<Rightarrow> Throw e c
         | Normal (ctx, True) \<Rightarrow> Normal (ctx, True)
         | Normal (ctx, False) \<Rightarrow>
             if count > 4 then Throw InvalidArgument ctx
             else
               (let restChars = count - 1
                in case Edifact_EncodeToCodewords buffer 0 of
                     Inl e \<Rightarrow> Throw e ctx
                   | Inr encoded \<Rightarrow>
                       (let endOfSymbolReached = \<not> hasMoreCharacters ctx;
                            restInAscii = (endOfSymbolReached \<and> restChars \<le> 2)
                        in case (if restChars \<le> 2 then
                                   (let n = codewordCount ctx
                                    in case updateSymbolInfo sel ctx (n + restChars) of
                                         Throw e c \<Rightarrow> Throw e c
                                       | Normal (ctx, capacity) \<Rightarrow>
                                           (let available = capacity - n
                                            in if available \<ge> 3 then
                                                 (case updateSymbolInfo sel ctx
                                                         (n + int (length encoded)) of
                                                    Throw e c \<Rightarrow> Throw e c
                                                  | Normal (ctx, capacity) \<Rightarrow> Normal (ctx, False))
                                               else Normal (ctx, restInAscii)))
                                 else Normal (ctx, restInAscii)) of
                             Throw e c \<Rightarrow> Throw e c
                           | Normal (ctx, restInAscii) \<Rightarrow>
                               if restInAscii then
                                 (let ctx = resetSymbolInfo ctx
                                  in Normal (setCurrentPos ctx (currentPos ctx - restChars), False))
                               else Normal (addCodewords ctx encoded, False))))"

text \<open>
  \<open>catch (...)\<close> sets the new encoding and rethrows; the statement after the
  \<open>try\<close> block is reached only when the block ends without \<open>return\<close>.
\<close>

definition Edifact_HandleEOD :: "catalog \<Rightarrow> EncoderContext \<Rightarrow> byte list \<Rightarrow> EncoderContext outcome" where
  "Edifact_HandleEOD sel ctx buffer =
     (case Edifact_HandleEOD_try sel ctx buffer of
        Throw e c \<Rightarrow> Throw e (setNewEncoding c ASCII_ENCODATION)
      | Normal (ctx, True) \<Rightarrow> Normal ctx
      | Normal (ctx, False) \<Rightarrow> Normal (setNewEncoding ctx ASCII_ENCODATION))"

lemma addCodewords_frame:
  "message (addCodewords ctx cws) = message ctx \<and>
   currentPos (addCodewords ctx cws) = currentPos ctx \<and>
   skipAtEnd (addCodewords ctx cws) = skipAtEnd ctx \<and>
   newEncoding (addCodewords ctx cws) = newEncoding ctx \<and>
   symbolInfo (addCodewords ctx cws) = symbolInfo ctx"
  unfolding addCodewords_def
  by (induction cws arbitrary: ctx) (simp_all add: addCodeword_def)

function Edifact_loop :: "EncoderContext \<Rightarrow> byte list \<Rightarrow> (EncoderContext \<times> byte list) outcome" where
  "Edifact_loop ctx buffer =
     (if \<not> hasMoreCharacters ctx then Normal (ctx, buffer)
      else case currentChar ctx of
        None \<Rightarrow> Throw OutOfRange ctx
      | Some c \<Rightarrow>
          (case Edifact_EncodeChar c buffer of
             Inl e \<Rightarrow> Throw e ctx
           | Inr buffer1 \<Rightarrow>
               (let ctx1 = setCurrentPos ctx (currentPos ctx + 1)
                in if length buffer1 \<ge> 4 then
                     (case Edifact_EncodeToCodewords buffer1 0 of
                        Inl e \<Rightarrow> Throw e ctx1
                      | Inr cws \<Rightarrow>
                          (let ctx2 = addCodewords ctx1 cws;
                               buffer2 = drop 4 buffer1
                           in case LookAheadTest (message ctx2) (size_t_of (currentPos ctx2))
                                     EDIFACT_ENCODATION of
                                None \<Rightarrow> Throw OutOfRange ctx2
                              | Some newMode \<Rightarrow>
                                  if newMode \<noteq> EDIFACT_ENCODATION
                                  then Normal (setNewEncoding ctx2 ASCII_ENCODATION, buffer2)
                                  else Edifact_loop ctx2 buffer2))
                   else Edifact_loop ctx1 buffer1)))"
  by pat_completeness auto
termination
  by (relation "measure (\<lambda>(ctx, buffer). nat (totalMessageCharCount ctx - currentPos ctx))")
     (auto simp: hasMoreCharacters_def totalMessageCharCount_def setCurrentPos_def
                 addCodewords_frame)

declare Edifact_loop.simps [simp del]

definition EncodeEdifact :: "catalog \<Rightarrow> EncoderContext \<Rightarrow> EncoderContext outcome" where
  "EncodeEdifact sel ctx =
     (case Edifact_loop ctx [] of
        Throw e c \<Rightarrow> Throw e c
      | Normal (ctx, buffer) \<Rightarrow> Edifact_HandleEOD sel ctx (buffer @ [31]))"

subsection \<open>Base 256 encoder\<close>

definition Randomize255State :: "int \<Rightarrow> int \<Rightarrow> int" where
  "Randomize255State ch codewordPosition =
     (let pseudoRandom = ((149 * codewordPosition) mod 255) + 1;
          tempVariable = ch + pseudoRandom
      in if tempVariable \<le> 255 then tempVariable else tempVariable - 256)"

function Base256_loop :: "EncoderContext \<Rightarrow> byte list \<Rightarrow> (EncoderContext \<times> byte list) outcome" where
  "Base256_loop ctx buffer =
     (if \<not> hasMoreCharacters ctx then Normal (ctx, buffer)
      else case currentChar ctx of
        None \<Rightarrow> Throw OutOfRange ctx
      | Some c \<Rightarrow>
          (let buffer1 = buffer @ [word_of_int c];
               ctx1 = setCurrentPos ctx (currentPos ctx + 1)
           in case LookAheadTest (message ctx1) (size_t_of (currentPos ctx1))
                     BASE256_ENCODATION of
                None \<Rightarrow> Throw OutOfRange ctx1
              | Some newMode \<Rightarrow>
                  if newMode \<noteq> BASE256_ENCODATION
                  then Normal (setNewEncoding ctx1 newMode, buffer1)
                  else Base256_loop ctx1 buffer1))"
  by pat_completeness auto
termination
  by (relation "measure (\<lambda>(ctx, buffer). nat (totalMessageCharCount ctx - currentPos ctx))")
     (auto simp: hasMoreCharacters_def totalMessageCharCount_def setCurrentPos_def)

declare Base256_loop.simps [simp del]

text \<open>The length field: what \<open>EncodeBase256\<close> does to the buffer after its loop.\<close>

definition Base256_length_field ::
  "EncoderContext \<Rightarrow> bool \<Rightarrow> byte list \<Rightarrow> error + byte list" where
  "Base256_length_field ctx mustPad buffer =
     (let dataCount = int (length buffer) - 1
      in if hasMoreCharacters ctx \<or> mustPad then
           (if buffer = [] then Inl OutOfRange
            else if dataCount \<le> 249 then Inr (buffer[0 := word_of_int dataCount])
            else if dataCount > 249 \<and> dataCount \<le> 1555 then
              (let buffer = buffer[0 := word_of_int ((dataCount div 250) + 249)]
               in Inr (take 1 buffer @ [word_of_int (dataCount mod 250)] @ drop 1 buffer))
            else Inl MessageTooLong)
         else Inr buffer)"

text \<open>\<open>for (char c : buffer) context.addCodeword(Randomize255State(c, ...))\<close>.\<close>

fun Base256_emit :: "EncoderContext \<Rightarrow> byte list \<Rightarrow> EncoderContext" where
  "Base256_emit ctx [] = ctx"
| "Base256_emit ctx (c # cs) =
     Base256_emit (addCodeword ctx (Randomize255State (sint c) (codewordCount ctx + 1))) cs"

definition Base256_finish :: "catalog \<Rightarrow> EncoderContext \<Rightarrow> byte list \<Rightarrow> EncoderContext outcome" where
  "Base256_finish sel ctx buffer =
     (let dataCount = int (length buffer) - 1;
          lengthFieldSize = 1;
          currentSize = codewordCount ctx + dataCount + lengthFieldSize
      in case updateSymbolInfo sel ctx currentSize of
           Throw e c \<Rightarrow> Throw e c
         | Normal (ctx, capacity) \<Rightarrow>
             (let mustPad = (capacity - currentSize > 0)
              in case Base256_length_field ctx mustPad buffer of
                   Inl e \<Rightarrow> Throw e ctx
                 | Inr buffer \<Rightarrow> Normal (Base256_emit ctx buffer)))"

definition EncodeBase256 :: "catalog \<Rightarrow> EncoderContext \<Rightarrow> EncoderContext outcome" where
  "EncodeBase256 sel ctx =
     (case Base256_loop ctx [0] of
        Throw e c \<Rightarrow> Throw e c
      | Normal (ctx, buffer) \<Rightarrow> Base256_finish sel ctx buffer)"

subsection \<open>The driver\<close>

definition StartsWith :: "wstring \<Rightarrow> wstring \<Rightarrow> bool" where
  "StartsWith s ss \<longleftrightarrow> length s > length ss \<and> take (length ss) s = ss"

definition EndsWith :: "wstring \<Rightarrow> wstring \<Rightarrow> bool" where
  "EndsWith s ss \<longleftrightarrow> length s > length ss \<and> drop (length s - length ss) s = ss"

text \<open>
  \<open>Encode\<close> takes the text as a wide string and has its octets from
  \<open>TextEncoder::GetBytes(msg, CharacterSet::ISO8859_1, bytes)\<close>, which is outside the
  sources. Here a message is given by its octets, and \<open>wide\<close> is the text they stand
  for: ISO-8859-1 maps a character to the octet of its code point. The macro test is
  made on the text, the context is built from the octets.
\<close>

definition wide :: "byte list \<Rightarrow> wstring" where
  "wide bytes = map uint bytes"

text \<open>The context after the macro test at the start of \<open>Encode\<close>.\<close>

definition initial_context :: "byte list \<Rightarrow> EncoderContext" where
  "initial_context bytes =
     (let msg = wide bytes;
          ctx = new_context bytes
      in if StartsWith msg MACRO_05_HEADER \<and> EndsWith msg MACRO_TRAILER then
           (let ctx = addCodeword ctx MACRO_05;
                ctx = setSkipAtEnd ctx 2
            in setCurrentPos ctx (int (length MACRO_05_HEADER)))
         else if StartsWith msg MACRO_06_HEADER \<and> EndsWith msg MACRO_TRAILER then
           (let ctx = addCodeword ctx MACRO_06;
                ctx = setSkipAtEnd ctx 2
            in setCurrentPos ctx (int (length MACRO_06_HEADER)))
         else ctx)"

text \<open>The \<open>switch\<close> of the main loop.\<close>

fun encode_mode :: "catalog \<Rightarrow> Mode \<Rightarrow> EncoderContext \<Rightarrow> EncoderContext outcome" where
  "encode_mode sel ASCII_ENCODATION ctx = EncodeASCII ctx"
| "encode_mode sel C40_ENCODATION ctx = EncodeC40 sel ctx"
| "encode_mode sel TEXT_ENCODATION ctx = EncodeText sel ctx"
| "encode_mode sel X12_ENCODATION ctx = EncodeX12 sel ctx"
| "encode_mode sel EDIFACT_ENCODATION ctx = EncodeEdifact sel ctx"
| "encode_mode sel BASE256_ENCODATION ctx = EncodeBase256 sel ctx"

text \<open>
  The main loop \<open>while (context.hasMoreCharacters())\<close>, with fuel: one unit for each
  pass, \<open>None\<close> when the fuel runs out before the loop ends.
\<close>

fun Encode_loop ::
  "nat \<Rightarrow> catalog \<Rightarrow> EncoderContext \<Rightarrow> Mode \<Rightarrow> (EncoderContext \<times> Mode) outcome option" where
  "Encode_loop 0 sel ctx encodingMode = None"
| "Encode_loop (Suc fuel) sel ctx encodingMode =
     (if \<not> hasMoreCharacters ctx then Some (Normal (ctx, encodingMode))
      else case encode_mode sel encodingMode ctx of
        Throw e c \<Rightarrow> Some (Throw e c)
      | Normal ctx \<Rightarrow>
          (case newEncoding ctx of
             Some m \<Rightarrow> Encode_loop fuel sel (clearNewEncoding ctx) m
           | None \<Rightarrow> Encode_loop fuel sel ctx encodingMode))"

text \<open>The loop \<open>while (context.codewordCount() < capacity)\<close> of the padding.\<close>

function pad_loop :: "EncoderContext \<Rightarrow> int \<Rightarrow> EncoderContext" where
  "pad_loop ctx capacity =
     (if codewordCount ctx < capacity
      then pad_loop (addCodeword ctx (Randomize253State PAD (codewordCount ctx + 1))) capacity
      else ctx)"
  by pat_completeness auto
termination
  by (relation "measure (\<lambda>(ctx, capacity). nat (capacity - codewordCount ctx))")
     (auto simp: codewordCount_def addCodeword_def)

declare pad_loop.simps [simp del]

text \<open>The end of \<open>Encode\<close>, after the main loop.\<close>

definition finalize :: "catalog \<Rightarrow> EncoderContext \<Rightarrow> Mode \<Rightarrow> (int list) outcome" where
  "finalize sel ctx encodingMode =
     (let len = codewordCount ctx
      in case updateSymbolInfo sel ctx len of
           Throw e c \<Rightarrow> Throw e c
         | Normal (ctx, capacity) \<Rightarrow>
             (let ctx = (if len < capacity \<and> encodingMode \<noteq> ASCII_ENCODATION
                            \<and> encodingMode \<noteq> BASE256_ENCODATION
                         then addCodeword ctx (sint (0xFE :: byte)) else ctx);
                  ctx = (if codewordCount ctx < capacity then addCodeword ctx PAD else ctx);
                  ctx = pad_loop ctx capacity
              in Normal (codewords ctx)))"

text \<open>
  \<open>HighLevelEncoder::Encode\<close> on the octets of the message (the transcoding of the
  text to ISO-8859-1 is outside the sources) and the catalog of the run. The result is
  \<open>None\<close> when the fuel runs out, \<open>Some (Inl e)\<close> for a thrown exception and
  \<open>Some (Inr output)\<close> for the codewords.
\<close>

definition Encode :: "nat \<Rightarrow> catalog \<Rightarrow> byte list \<Rightarrow> (error + int list) option" where
  "Encode fuel sel msg =
     (case Encode_loop fuel sel (initial_context msg) ASCII_ENCODATION of
        None \<Rightarrow> None
      | Some (Throw e c) \<Rightarrow> Some (Inl e)
      | Some (Normal (ctx, encodingMode)) \<Rightarrow>
          (case finalize sel ctx encodingMode of
             Throw e c \<Rightarrow> Some (Inl e)
           | Normal output \<Rightarrow> Some (Inr output)))"

subsection \<open>An example catalog\<close>

text \<open>
  A catalog given by the data capacities of its symbols, smallest first: the first
  symbol that holds the requested number of codewords is selected. \<open>ecc200\<close> lists
  the data capacities of the ECC 200 symbols of ISO/IEC 16022. The catalog is used to
  evaluate the encoder on concrete messages; the general theorems hold for every
  catalog.
\<close>

definition catalog_of :: "int list \<Rightarrow> catalog" where
  "catalog_of caps n = find (\<lambda>c. n \<le> c) caps"

definition ecc200 :: "int list" where
  "ecc200 = [3, 5, 8, 10, 12, 16, 18, 22, 30, 32, 36, 44, 49, 62, 86, 114, 144, 174, 204,
             280, 368, 456, 576, 696, 816, 1050, 1304, 1558]"

section \<open>Properties\<close>

subsection \<open>Look-ahead: the initial counts\<close>

lemma stepJ_values:
  "map fval (stepJ currentMode) =
     (if currentMode \<noteq> ASCII_ENCODATION then [1, 2, 2, 2, 2, 5 / 2] else [1 / 2, 1, 1, 1, 1, 5 / 4])
       [idx currentMode := 0]"
  by (cases currentMode; hypsubst_thin; code_simp)

text \<open>
  C3, as amended. For every message and every offset \<open>startpos\<close> inside it,
  \<open>LookAheadTest\<close> starts its loop from the counts of step J. These are
  \<open>[0.5, 1, 1, 1, 1, 1.25]\<close>, doubled only when the current mode is not ASCII, with the
  count of the current mode set to 0 for every current mode, ASCII included: a call
  with the current mode ASCII starts from \<open>[0, 1, 1, 1, 1, 1.25]\<close>.
\<close>

theorem LookAheadTest_initial_counts:
  "startpos < length msg \<Longrightarrow>
     LookAheadTest msg startpos currentMode = la_loop msg startpos (stepJ currentMode) 0 \<and>
     map fval (stepJ currentMode) =
       (if currentMode \<noteq> ASCII_ENCODATION then [1, 2, 2, 2, 2, 5 / 2]
        else [1 / 2, 1, 1, 1, 1, 5 / 4]) [idx currentMode := 0]"
  by (simp add: LookAheadTest_def stepJ_values)

theorem LookAheadTest_initial_counts_witness:
  "LookAheadTest [65] 0 ASCII_ENCODATION = la_loop [65] 0 (stepJ ASCII_ENCODATION) 0 \<and>
   map fval (stepJ ASCII_ENCODATION) = [0, 1, 1, 1, 1, 5 / 4]"
  using LookAheadTest_initial_counts [of 0 "[65]" ASCII_ENCODATION] by simp

text \<open>
  C3 as stated fails: the counts a call with the current mode ASCII starts from are not
  \<open>[0.5, 1, 1, 1, 1, 1.25]\<close>, and the difference shows in the result: on the message
  \<open>ABCD\<close> the look-ahead returns ASCII, where the loop started from
  \<open>[0.5, 1, 1, 1, 1, 1.25]\<close> returns C40.
\<close>

theorem LookAheadTest_initial_counts_counterexample:
  "map fval (stepJ ASCII_ENCODATION) \<noteq> [1 / 2, 1, 1, 1, 1, 5 / 4] \<and>
   LookAheadTest [65, 66, 67, 68] 0 ASCII_ENCODATION = Some ASCII_ENCODATION \<and>
   la_loop [65, 66, 67, 68] 0 [Flt 1 (- 1), fint 1, fint 1, fint 1, fint 1, Flt 5 (- 2)] 0
     = Some C40_ENCODATION"
  by code_simp

subsection \<open>Look-ahead: the tie-break of step R\<close>

lemma FindMinimums_tie:
  assumes "A < INT_MAX" "C + 1 < A" "C + 1 < B" "C + 1 < E" "C + 1 < T" "C = X"
  shows "FindMinimums [A, C, T, X, E, B] INT_MAX = (C, [0, 1, 0, 1, 0, 0])"
  using assms
  by (simp add: FindMinimums_def FindMinimums_step_def upt_rec numeral_eq_Suc Let_def)

lemma x12_scan_cong:
  assumes "length msg' = length msg" "\<forall>i. p \<le> i \<and> i < length msg \<longrightarrow> msg' ! i = msg ! i"
  shows "x12_scan msg' p = x12_scan msg p"
  using assms
proof (induction msg p rule: x12_scan.induct)
  case (1 msg p)
  show ?case
  proof (cases "p < length msg")
    case True
    then have eq: "msg' ! p = msg ! p" using 1 by simp
    show ?thesis
    proof (cases "\<not> IsX12TermSep (sint (msg ! p)) \<and> IsNativeX12 (sint (msg ! p))")
      case True
      with \<open>p < length msg\<close> have "x12_scan msg' (p + 1) = x12_scan msg (p + 1)"
        using 1 by simp
      with True \<open>p < length msg\<close> eq 1(2) show ?thesis
        by (simp add: Let_def x12_scan.simps [of msg p] x12_scan.simps [of msg' p])
    next
      case False
      with \<open>p < length msg\<close> eq 1(2) show ?thesis
        by (auto simp add: Let_def x12_scan.simps [of msg p] x12_scan.simps [of msg' p])
    qed
  next
    case False
    with 1(2) show ?thesis
      by (simp add: x12_scan.simps [of msg p] x12_scan.simps [of msg' p])
  qed
qed

lemma x12_scan_all_native:
  assumes "\<forall>i. p \<le> i \<and> i < length msg \<longrightarrow>
             IsNativeX12 (sint (msg ! i)) \<and> \<not> IsX12TermSep (sint (msg ! i))"
  shows "x12_scan msg p = C40_ENCODATION"
  using assms
proof (induction msg p rule: x12_scan.induct)
  case (1 msg p)
  show ?case
  proof (cases "p < length msg")
    case True
    with 1 show ?thesis by (simp add: Let_def x12_scan.simps [of msg p])
  next
    case False
    then show ?thesis by (simp add: x12_scan.simps [of msg p])
  qed
qed

text \<open>
  C10. When step R reaches the tie-break of C40 against X12 (the ceiled counts of C40
  and X12 are equal, C40 + 1 is below the counts of ASCII, Base 256, EDIFACT and Text,
  and no earlier rule of step R has returned), the result is the forward scan started
  at index \<open>startpos + charsProcessed + 1\<close>. The scan reads the message from that
  index on only, so the character at \<open>startpos + charsProcessed\<close>, the one right
  after the last processed character, is never examined; and when every character from
  that index to the end is native to X12 and no terminator or separator, C40 is
  returned.
\<close>

theorem stepR_tie_break:
  assumes "ceil_counts charCounts = [A, C, T, X, E, B]"
    and "A < INT_MAX" and "\<not> B < A"
    and "C + 1 < A" and "C + 1 < B" and "C + 1 < E" and "C + 1 < T" and "C = X"
  shows "stepR msg startpos charsProcessed charCounts
           = Some (x12_scan msg (startpos + charsProcessed + 1)) \<and>
         (\<forall>msg'. length msg' = length msg \<and>
                  (\<forall>i. startpos + charsProcessed + 1 \<le> i \<and> i < length msg \<longrightarrow> msg' ! i = msg ! i)
            \<longrightarrow> x12_scan msg' (startpos + charsProcessed + 1)
                  = x12_scan msg (startpos + charsProcessed + 1)) \<and>
         ((\<forall>i. startpos + charsProcessed + 1 \<le> i \<and> i < length msg \<longrightarrow>
                IsNativeX12 (sint (msg ! i)) \<and> \<not> IsX12TermSep (sint (msg ! i)))
            \<longrightarrow> stepR msg startpos charsProcessed charCounts = Some C40_ENCODATION)"
proof -
  have fm: "FindMinimums [A, C, T, X, E, B] INT_MAX = (C, [0, 1, 0, 1, 0, 0])"
    using assms(2,4-8) by (rule FindMinimums_tie)
  have r: "stepR msg startpos charsProcessed charCounts
             = Some (x12_scan msg (startpos + charsProcessed + 1))"
  proof -
    have fm': "FindMinimums [A, X, T, X, E, B] INT_MAX = (X, [0, 1, 0, 1, 0, 0])"
      using fm assms(8) by simp
    show ?thesis
      using assms(3-8) by (simp add: stepR_def assms(1) fm')
  qed
  show ?thesis
  proof (intro conjI allI impI)
    show "stepR msg startpos charsProcessed charCounts
            = Some (x12_scan msg (startpos + charsProcessed + 1))" by (rule r)
  next
    fix msg'
    assume "length msg' = length msg \<and>
      (\<forall>i. startpos + charsProcessed + 1 \<le> i \<and> i < length msg \<longrightarrow> msg' ! i = msg ! i)"
    then show "x12_scan msg' (startpos + charsProcessed + 1)
                 = x12_scan msg (startpos + charsProcessed + 1)"
      using x12_scan_cong by blast
  next
    assume "\<forall>i. startpos + charsProcessed + 1 \<le> i \<and> i < length msg \<longrightarrow>
                IsNativeX12 (sint (msg ! i)) \<and> \<not> IsX12TermSep (sint (msg ! i))"
    then have "x12_scan msg (startpos + charsProcessed + 1) = C40_ENCODATION"
      by (rule x12_scan_all_native)
    with r show "stepR msg startpos charsProcessed charCounts = Some C40_ENCODATION"
      by simp
  qed
qed

text \<open>The counts after the characters of \<open>cs\<close>, from the counts \<open>cc\<close>.\<close>

fun counts_after :: "byte list \<Rightarrow> flt list \<Rightarrow> flt list" where
  "counts_after [] cc = cc"
| "counts_after (c # cs) cc = counts_after cs (count_char (sint c) cc)"

text \<open>
  The witness: after 19 letters \<open>A\<close> the ceiled counts are \<open>[19, 14, 27, 14, 16, 21]\<close>.
  In the message the letters are followed by \<open>a\<close>, which is not native to X12, and
  by \<open>>\<close>: the scan starts at \<open>>\<close> and returns X12.
\<close>

theorem stepR_tie_break_witness:
  "stepR (replicate 19 65 @ [97, 62]) 0 19 (counts_after (replicate 19 65) (stepJ ASCII_ENCODATION))
     = Some X12_ENCODATION \<and>
   LookAheadTest (replicate 19 65 @ [97, 62]) 0 ASCII_ENCODATION = Some X12_ENCODATION \<and>
   \<not> IsNativeX12 (sint ((replicate 19 65 @ [97, 62 :: byte]) ! 19))"
proof -
  have cc: "ceil_counts (counts_after (replicate 19 65) (stepJ ASCII_ENCODATION))
              = [19, 14, 27, 14, 16, 21]"
    by code_simp
  have sc: "x12_scan (replicate 19 65 @ [97, 62]) (0 + 19 + 1) = X12_ENCODATION"
    by code_simp
  have h: "stepR (replicate 19 65 @ [97, 62]) 0 19
             (counts_after (replicate 19 65) (stepJ ASCII_ENCODATION))
          = Some (x12_scan (replicate 19 65 @ [97, 62]) (0 + 19 + 1))"
    by (rule stepR_tie_break [OF cc, THEN conjunct1]) (simp_all add: INT_MAX_def)
  have a: "stepR (replicate 19 65 @ [97, 62]) 0 19
             (counts_after (replicate 19 65) (stepJ ASCII_ENCODATION))
          = Some X12_ENCODATION"
    using h unfolding sc .
  have b: "LookAheadTest (replicate 19 65 @ [97, 62]) 0 ASCII_ENCODATION
                   = Some X12_ENCODATION"
    by code_simp
  have c: "\<not> IsNativeX12 (sint ((replicate 19 65 @ [97, 62 :: byte]) ! 19))"
    by code_simp
  from a b c show ?thesis by (intro conjI)
qed

subsection \<open>C40 and Text: end of data\<close>

text \<open>The codewords of the full triples of a buffer, and the values left over.\<close>

fun triplet_codewords :: "byte list \<Rightarrow> int list" where
  "triplet_codewords (b1 # b2 # b3 # bs) =
     (let v = (1600 * sint b1) + (40 * sint b2) + sint b3 + 1
      in (v sdiv 256) # (v smod 256) # triplet_codewords bs)"
| "triplet_codewords bs = []"

definition triplet_rest :: "byte list \<Rightarrow> byte list" where
  "triplet_rest bs = drop (3 * (length bs div 3)) bs"

lemma updateSymbolInfo_Normal:
  "updateSymbolInfo sel ctx len = Normal (ctx1, cap) \<Longrightarrow> ctx1 = ctx\<lparr>symbolInfo := Some cap\<rparr>"
  by (auto simp: updateSymbolInfo_def split: option.splits if_splits)

lemma WriteNextTriplet_eq:
  "WriteNextTriplet ctx (b1 # b2 # b3 # bs) =
     Normal (ctx\<lparr>codewords := codewords ctx @ triplet_codewords [b1, b2, b3]\<rparr>, bs)"
  by (simp add: WriteNextTriplet_def EncodeToCodewords_def str_at_def addCodeword_def Let_def)

lemma triplet_rest_Cons3: "triplet_rest (b1 # b2 # b3 # bs) = triplet_rest bs"
proof -
  have "drop (3 + 3 * (length bs div 3)) (b1 # b2 # b3 # bs)
          = drop (3 * (length bs div 3)) (drop 3 (b1 # b2 # b3 # bs))"
    by (simp only: drop_drop add.commute)
  then show ?thesis by (simp add: triplet_rest_def)
qed

lemma triplet_rest_short: "length bs < 3 \<Longrightarrow> triplet_rest bs = bs"
  by (simp add: triplet_rest_def)

lemma write_triplets_eq:
  "write_triplets ctx buffer =
     Normal (ctx\<lparr>codewords := codewords ctx @ triplet_codewords buffer\<rparr>, triplet_rest buffer)"
proof (induction buffer arbitrary: ctx rule: triplet_codewords.induct)
  case (1 b1 b2 b3 bs)
  show ?case
    by (subst write_triplets.simps)
       (simp add: WriteNextTriplet_eq 1 triplet_rest_Cons3 Let_def)
qed (subst write_triplets.simps, simp add: triplet_rest_short)+

lemma C40_HandleEOD_eq:
  assumes "updateSymbolInfo sel ctx (codewordCount ctx + (int (length buffer) div 3) * 2)
             = Normal (ctx1, capacity)"
  shows "C40_HandleEOD sel ctx buffer =
     (let rest = int (length buffer) mod 3;
          available = capacity - (codewordCount ctx + (int (length buffer) div 3) * 2);
          more = hasMoreCharacters ctx
      in if rest = 2 then
           Normal (ctx\<lparr>codewords := codewords ctx @ triplet_codewords (buffer @ [0])
                                      @ (if more then [254] else []),
                        newEncoding := Some ASCII_ENCODATION,
                        symbolInfo := Some capacity\<rparr>,
                   triplet_rest (buffer @ [0]))
         else if rest = 1 \<and> available = 1 then
           Normal (ctx\<lparr>codewords := codewords ctx @ triplet_codewords buffer
                                      @ (if more then [254] else []),
                        currentPos := currentPos ctx - 1,
                        newEncoding := Some ASCII_ENCODATION,
                        symbolInfo := Some capacity\<rparr>,
                   triplet_rest buffer)
         else if rest = 0 then
           Normal (ctx\<lparr>codewords := codewords ctx @ triplet_codewords buffer
                                      @ (if available > 0 \<or> more then [254] else []),
                        newEncoding := Some ASCII_ENCODATION,
                        symbolInfo := Some capacity\<rparr>,
                   triplet_rest buffer)
         else Throw InternalInvariant (ctx\<lparr>symbolInfo := Some capacity\<rparr>))"
proof -
  have c1: "ctx1 = ctx\<lparr>symbolInfo := Some capacity\<rparr>"
    using assms by (rule updateSymbolInfo_Normal)
  show ?thesis
    unfolding C40_HandleEOD_def Let_def assms
    by (simp add: c1 write_triplets_eq hasMoreCharacters_def
          totalMessageCharCount_def addCodeword_def setCurrentPos_def setNewEncoding_def
          C40_UNLATCH_def)
qed

text \<open>
  C5. Let \<open>rest = buffer.len % 3\<close> and
  \<open>available = capacity - (codewordCount + (buffer.len / 3) * 2)\<close>, where
  \<open>capacity\<close> is the capacity \<open>updateSymbolInfo\<close> returns for that count. The
  end-of-data handler of C40 and Text
  \<^item> for \<open>rest = 2\<close> appends the value 0 to the buffer, writes the codewords of all
    full triples and then 254 iff source characters remain;
  \<^item> for \<open>rest = 1\<close> and \<open>available = 1\<close> writes the codewords of all full triples,
    then 254 iff source characters remain, and moves the cursor back by 1;
  \<^item> for \<open>rest = 0\<close> writes the codewords of all full triples and then 254 iff
    \<open>available > 0\<close> or source characters remain;
  \<^item> in exactly the remaining case, \<open>rest = 1\<close> with \<open>available \<noteq> 1\<close>, throws
    the internal-invariant error;
  and in every case but the last it sets the new encoding to ASCII.
\<close>

theorem C40_HandleEOD_cases:
  assumes "updateSymbolInfo sel ctx (codewordCount ctx + (int (length buffer) div 3) * 2)
             = Normal (ctx1, capacity)"
  shows "C40_HandleEOD sel ctx buffer =
     (let rest = int (length buffer) mod 3;
          available = capacity - (codewordCount ctx + (int (length buffer) div 3) * 2);
          more = hasMoreCharacters ctx
      in if rest = 2 then
           Normal (ctx\<lparr>codewords := codewords ctx @ triplet_codewords (buffer @ [0])
                                      @ (if more then [254] else []),
                        newEncoding := Some ASCII_ENCODATION,
                        symbolInfo := Some capacity\<rparr>,
                   triplet_rest (buffer @ [0]))
         else if rest = 1 \<and> available = 1 then
           Normal (ctx\<lparr>codewords := codewords ctx @ triplet_codewords buffer
                                      @ (if more then [254] else []),
                        currentPos := currentPos ctx - 1,
                        newEncoding := Some ASCII_ENCODATION,
                        symbolInfo := Some capacity\<rparr>,
                   triplet_rest buffer)
         else if rest = 0 then
           Normal (ctx\<lparr>codewords := codewords ctx @ triplet_codewords buffer
                                      @ (if available > 0 \<or> more then [254] else []),
                        newEncoding := Some ASCII_ENCODATION,
                        symbolInfo := Some capacity\<rparr>,
                   triplet_rest buffer)
         else Throw InternalInvariant (ctx\<lparr>symbolInfo := Some capacity\<rparr>))"
  using assms by (rule C40_HandleEOD_eq)

theorem C40_HandleEOD_cases_witness:
  "C40_HandleEOD (catalog_of ecc200)
      \<lparr>message = [65, 66], codewords = [230], currentPos = 2, newEncoding = None,
       symbolInfo = None, skipAtEnd = 0\<rparr> [14, 15]
     = Normal (\<lparr>message = [65, 66], codewords = [230, 89, 217], currentPos = 2,
                newEncoding = Some ASCII_ENCODATION, symbolInfo = Some 3, skipAtEnd = 0\<rparr>, []) \<and>
   C40_HandleEOD (catalog_of ecc200)
      \<lparr>message = [65, 65, 66, 67, 68], codewords = [66, 230], currentPos = 5,
       newEncoding = None, symbolInfo = None, skipAtEnd = 0\<rparr> [14, 15, 16, 17]
     = Normal (\<lparr>message = [65, 65, 66, 67, 68], codewords = [66, 230, 89, 233],
                currentPos = 4, newEncoding = Some ASCII_ENCODATION, symbolInfo = Some 5,
                skipAtEnd = 0\<rparr>, [17]) \<and>
   C40_HandleEOD (catalog_of ecc200)
      \<lparr>message = [65, 66, 67, 68, 69, 70], codewords = [230], currentPos = 6,
       newEncoding = None, symbolInfo = None, skipAtEnd = 0\<rparr> [14, 15, 16, 17, 18, 19]
     = Normal (\<lparr>message = [65, 66, 67, 68, 69, 70], codewords = [230, 89, 233, 109, 36],
                currentPos = 6, newEncoding = Some ASCII_ENCODATION, symbolInfo = Some 5,
                skipAtEnd = 0\<rparr>, []) \<and>
   C40_HandleEOD (catalog_of ecc200)
      \<lparr>message = [65], codewords = [230], currentPos = 1, newEncoding = None,
       symbolInfo = None, skipAtEnd = 0\<rparr> [14]
     = Throw InternalInvariant
         \<lparr>message = [65], codewords = [230], currentPos = 1, newEncoding = None,
          symbolInfo = Some 3, skipAtEnd = 0\<rparr>"
proof -
  let ?sel = "catalog_of ecc200"
  let ?a = "\<lparr>message = [65, 66], codewords = [230], currentPos = 2, newEncoding = None,
       symbolInfo = None, skipAtEnd = 0\<rparr>"
  let ?b = "\<lparr>message = [65, 65, 66, 67, 68], codewords = [66, 230], currentPos = 5,
       newEncoding = None, symbolInfo = None, skipAtEnd = 0\<rparr>"
  let ?c = "\<lparr>message = [65, 66, 67, 68, 69, 70], codewords = [230], currentPos = 6,
       newEncoding = None, symbolInfo = None, skipAtEnd = 0\<rparr>"
  let ?d = "\<lparr>message = [65], codewords = [230], currentPos = 1, newEncoding = None,
       symbolInfo = None, skipAtEnd = 0\<rparr>"
  have a: "updateSymbolInfo ?sel ?a (codewordCount ?a + (int (length [14, 15 :: byte]) div 3) * 2)
             = Normal (?a\<lparr>symbolInfo := Some 3\<rparr>, 3)"
    by code_simp
  have b: "updateSymbolInfo ?sel ?b
             (codewordCount ?b + (int (length [14, 15, 16, 17 :: byte]) div 3) * 2)
             = Normal (?b\<lparr>symbolInfo := Some 5\<rparr>, 5)"
    by code_simp
  have c: "updateSymbolInfo ?sel ?c
             (codewordCount ?c + (int (length [14, 15, 16, 17, 18, 19 :: byte]) div 3) * 2)
             = Normal (?c\<lparr>symbolInfo := Some 5\<rparr>, 5)"
    by code_simp
  have d: "updateSymbolInfo ?sel ?d (codewordCount ?d + (int (length [14 :: byte]) div 3) * 2)
             = Normal (?d\<lparr>symbolInfo := Some 3\<rparr>, 3)"
    by code_simp
  show ?thesis
  proof (intro conjI)
    show "C40_HandleEOD ?sel ?a [14, 15]
            = Normal (\<lparr>message = [65, 66], codewords = [230, 89, 217], currentPos = 2,
                newEncoding = Some ASCII_ENCODATION, symbolInfo = Some 3, skipAtEnd = 0\<rparr>, [])"
      by (rule trans [OF C40_HandleEOD_cases [OF a]]) code_simp
    show "C40_HandleEOD ?sel ?b [14, 15, 16, 17]
            = Normal (\<lparr>message = [65, 65, 66, 67, 68], codewords = [66, 230, 89, 233],
                currentPos = 4, newEncoding = Some ASCII_ENCODATION, symbolInfo = Some 5,
                skipAtEnd = 0\<rparr>, [17])"
      by (rule trans [OF C40_HandleEOD_cases [OF b]]) code_simp
    show "C40_HandleEOD ?sel ?c [14, 15, 16, 17, 18, 19]
            = Normal (\<lparr>message = [65, 66, 67, 68, 69, 70], codewords = [230, 89, 233, 109, 36],
                currentPos = 6, newEncoding = Some ASCII_ENCODATION, symbolInfo = Some 5,
                skipAtEnd = 0\<rparr>, [])"
      by (rule trans [OF C40_HandleEOD_cases [OF c]]) code_simp
    show "C40_HandleEOD ?sel ?d [14]
            = Throw InternalInvariant
                \<lparr>message = [65], codewords = [230], currentPos = 1, newEncoding = None,
                 symbolInfo = Some 3, skipAtEnd = 0\<rparr>"
      by (rule trans [OF C40_HandleEOD_cases [OF d]]) code_simp
  qed
qed

subsection \<open>Base 256: the length field\<close>

lemma Base256_loop_buffer:
  "Base256_loop ctx b = Normal (ctx', buffer) \<Longrightarrow> \<exists>xs. buffer = b @ xs"
proof (induction ctx b rule: Base256_loop.induct)
  case (1 ctx b)
  show ?case
  proof (cases "hasMoreCharacters ctx")
    case False
    with "1.prems" show ?thesis by (simp add: Base256_loop.simps [of ctx b])
  next
    case True
    with "1.prems" obtain c where c: "currentChar ctx = Some c"
      by (auto simp: Base256_loop.simps [of ctx b] split: option.splits)
    let ?b1 = "b @ [word_of_int c]"
    let ?c1 = "setCurrentPos ctx (currentPos ctx + 1)"
    from "1.prems" True c obtain m where
      m: "LookAheadTest (message ?c1) (size_t_of (currentPos ?c1)) BASE256_ENCODATION = Some m"
      by (auto simp: Base256_loop.simps [of ctx b] Let_def split: option.splits)
    show ?thesis
    proof (cases "m \<noteq> BASE256_ENCODATION")
      case True
      with "1.prems" \<open>hasMoreCharacters ctx\<close> c m show ?thesis
        by (auto simp: Base256_loop.simps [of ctx b] Let_def)
    next
      case False
      with "1.prems" \<open>hasMoreCharacters ctx\<close> c m
      have "Base256_loop ?c1 ?b1 = Normal (ctx', buffer)"
        by (simp add: Base256_loop.simps [of ctx b] Let_def)
      then have "\<exists>xs. buffer = ?b1 @ xs"
        using "1.IH" \<open>hasMoreCharacters ctx\<close> c m False by blast
      then show ?thesis by auto
    qed
  qed
qed

lemma uint_byte_small: "0 \<le> k \<Longrightarrow> k < 256 \<Longrightarrow> uint (word_of_int k :: byte) = k"
  by (simp only: uint_word_of_int_eq take_bit_eq_mod) simp

text \<open>
  C7. After the loop of the Base 256 encoder the buffer holds the length placeholder
  and the data, so \<open>dataCount = buffer.len - 1\<close>; let \<open>capacity\<close> be the capacity
  \<open>updateSymbolInfo\<close> returns for \<open>codewordCount + dataCount + 1\<close> and
  \<open>mustPad = capacity - (codewordCount + dataCount + 1) > 0\<close>. The length field is
  written only when source characters remain or \<open>mustPad\<close> holds. Then, for
  \<open>dataCount \<le> 249\<close> the first byte of the buffer becomes \<open>dataCount\<close>; for
  \<open>249 < dataCount \<le> 1555\<close> it becomes \<open>dataCount / 250 + 249\<close> and a second byte
  \<open>dataCount % 250\<close> is inserted at position 1; for \<open>dataCount > 1555\<close> the encoder
  throws the message-too-long error. The buffer is then emitted byte by byte through
  \<open>Randomize255State\<close>. (The last conjunct: the buffer and context of the theorem
  are those the loop of \<open>EncodeBase256\<close> leaves.)
\<close>

theorem Base256_length_prefix:
  assumes "buffer \<noteq> []"
    and "updateSymbolInfo sel ctx (codewordCount ctx + (int (length buffer) - 1) + 1)
           = Normal (ctx1, capacity)"
  shows "(let dataCount = int (length buffer) - 1;
              mustPad = (capacity - (codewordCount ctx + dataCount + 1) > 0)
          in Base256_finish sel ctx buffer =
               (if hasMoreCharacters ctx \<or> mustPad then
                  (if dataCount \<le> 249 then
                     Normal (Base256_emit ctx1 (word_of_int dataCount # tl buffer))
                   else if dataCount \<le> 1555 then
                     Normal (Base256_emit ctx1
                               (word_of_int (dataCount div 250 + 249)
                                # word_of_int (dataCount mod 250) # tl buffer))
                   else Throw MessageTooLong ctx1)
                else Normal (Base256_emit ctx1 buffer)) \<and>
              (dataCount \<le> 249 \<longrightarrow> uint (word_of_int dataCount :: byte) = dataCount) \<and>
              (249 < dataCount \<and> dataCount \<le> 1555 \<longrightarrow>
                 uint (word_of_int (dataCount div 250 + 249) :: byte) = dataCount div 250 + 249 \<and>
                 uint (word_of_int (dataCount mod 250) :: byte) = dataCount mod 250)) \<and>
         (\<forall>ctx0. Base256_loop ctx0 [0] = Normal (ctx, buffer) \<longrightarrow>
                  EncodeBase256 sel ctx0 = Base256_finish sel ctx buffer)"
proof -
  from assms(1) obtain b bs where buf: "buffer = b # bs" by (cases buffer) auto
  have c1: "ctx1 = ctx\<lparr>symbolInfo := Some capacity\<rparr>"
    using assms(2) by (rule updateSymbolInfo_Normal)
  have more: "hasMoreCharacters ctx1 = hasMoreCharacters ctx"
    by (simp add: c1 hasMoreCharacters_def totalMessageCharCount_def)
  have fin: "Base256_finish sel ctx buffer =
      (case Base256_length_field ctx1
              (capacity - (codewordCount ctx + (int (length buffer) - 1) + 1) > 0) buffer of
         Inl e \<Rightarrow> Throw e ctx1 | Inr buffer \<Rightarrow> Normal (Base256_emit ctx1 buffer))"
    unfolding Base256_finish_def Let_def assms(2) by simp
  have eq: "Base256_finish sel ctx buffer =
      (if hasMoreCharacters ctx \<or> capacity - (codewordCount ctx + (int (length buffer) - 1) + 1) > 0
       then (if int (length buffer) - 1 \<le> 249 then
               Normal (Base256_emit ctx1 (word_of_int (int (length buffer) - 1) # tl buffer))
             else if int (length buffer) - 1 \<le> 1555 then
               Normal (Base256_emit ctx1
                        (word_of_int ((int (length buffer) - 1) div 250 + 249)
                         # word_of_int ((int (length buffer) - 1) mod 250) # tl buffer))
             else Throw MessageTooLong ctx1)
       else Normal (Base256_emit ctx1 buffer))"
    unfolding fin by (simp add: Base256_length_field_def more buf Let_def)
  define dc where "dc = int (length buffer) - 1"
  have d0: "0 \<le> dc" using buf by (simp add: dc_def)
  have v1: "dc \<le> 249 \<longrightarrow> uint (word_of_int dc :: byte) = dc"
  proof
    assume "dc \<le> 249"
    with d0 show "uint (word_of_int dc :: byte) = dc"
      by (intro uint_byte_small) linarith+
  qed
  have v2: "249 < dc \<and> dc \<le> 1555 \<longrightarrow>
      uint (word_of_int (dc div 250 + 249) :: byte) = dc div 250 + 249 \<and>
      uint (word_of_int (dc mod 250) :: byte) = dc mod 250"
  proof
    assume a: "249 < dc \<and> dc \<le> 1555"
    then have "dc div 250 \<le> 6" by linarith
    moreover have "0 \<le> dc div 250" using d0 by (simp add: pos_imp_zdiv_nonneg_iff)
    ultimately have "uint (word_of_int (dc div 250 + 249) :: byte) = dc div 250 + 249"
      by (intro uint_byte_small) linarith+
    moreover have "0 \<le> dc mod 250" "dc mod 250 < 250" by simp_all
    then have "uint (word_of_int (dc mod 250) :: byte) = dc mod 250"
      by (intro uint_byte_small) linarith+
    ultimately show "uint (word_of_int (dc div 250 + 249) :: byte) = dc div 250 + 249 \<and>
      uint (word_of_int (dc mod 250) :: byte) = dc mod 250" by simp
  qed
  have enc: "\<forall>ctx0. Base256_loop ctx0 [0] = Normal (ctx, buffer) \<longrightarrow>
                  EncodeBase256 sel ctx0 = Base256_finish sel ctx buffer"
    by (simp add: EncodeBase256_def)
  show ?thesis
    unfolding Let_def using eq v1 v2 enc unfolding dc_def by blast
qed

lemma Base256_loop_nonempty:
  "Base256_loop ctx0 [0] = Normal (ctx, buffer) \<Longrightarrow> buffer \<noteq> []"
  by (auto dest: Base256_loop_buffer)

text \<open>
  The witness: five octets with one codeword of room (the length byte is 5), 250
  octets (the length bytes are 250 and 0, emitted as 38 and 193), and 1556 octets with
  source characters remaining (the error).
\<close>

theorem Base256_length_prefix_witness:
  "Base256_finish (catalog_of ecc200)
      \<lparr>message = [171, 228, 246, 252, 233], codewords = [231], currentPos = 5,
       newEncoding = None, symbolInfo = None, skipAtEnd = 0\<rparr> [0, 171, 228, 246, 252, 233]
     = Normal \<lparr>message = [171, 228, 246, 252, 233],
               codewords = [231, 49, 108, 59, 226, 126, 1], currentPos = 5,
               newEncoding = None, symbolInfo = Some 8, skipAtEnd = 0\<rparr> \<and>
   (case Base256_finish (catalog_of ecc200)
           \<lparr>message = [], codewords = [231], currentPos = 0, newEncoding = None,
            symbolInfo = None, skipAtEnd = 0\<rparr> (0 # replicate 250 128) of
      Normal c \<Rightarrow> take 3 (codewords c) = [231, 38, 193] \<and> length (codewords c) = 253
    | Throw e c \<Rightarrow> False) \<and>
   Base256_finish (catalog_of ecc200)
      \<lparr>message = [65], codewords = [231], currentPos = 0, newEncoding = None,
       symbolInfo = None, skipAtEnd = 0\<rparr> (0 # replicate 1556 128)
     = Throw MessageTooLong
         \<lparr>message = [65], codewords = [231], currentPos = 0, newEncoding = None,
          symbolInfo = Some 1558, skipAtEnd = 0\<rparr>"
proof -
  let ?sel = "catalog_of ecc200"
  let ?a = "\<lparr>message = [171, 228, 246, 252, 233], codewords = [231], currentPos = 5,
       newEncoding = None, symbolInfo = None, skipAtEnd = 0\<rparr>"
  let ?b = "\<lparr>message = [], codewords = [231], currentPos = 0, newEncoding = None,
            symbolInfo = None, skipAtEnd = 0\<rparr>"
  let ?c = "\<lparr>message = [65], codewords = [231], currentPos = 0, newEncoding = None,
       symbolInfo = None, skipAtEnd = 0\<rparr>"
  have na: "[0, 171, 228, 246, 252, 233 :: byte] \<noteq> []" by simp
  have nb: "(0 :: byte) # replicate 250 128 \<noteq> []" by simp
  have nc: "(0 :: byte) # replicate 1556 128 \<noteq> []" by simp
  have ua: "updateSymbolInfo ?sel ?a
              (codewordCount ?a + (int (length [0, 171, 228, 246, 252, 233 :: byte]) - 1) + 1)
              = Normal (?a\<lparr>symbolInfo := Some 8\<rparr>, 8)"
    by code_simp
  have ub: "updateSymbolInfo ?sel ?b
              (codewordCount ?b + (int (length ((0 :: byte) # replicate 250 128)) - 1) + 1)
              = Normal (?b\<lparr>symbolInfo := Some 280\<rparr>, 280)"
    by code_simp
  have uc: "updateSymbolInfo ?sel ?c
              (codewordCount ?c + (int (length ((0 :: byte) # replicate 1556 128)) - 1) + 1)
              = Normal (?c\<lparr>symbolInfo := Some 1558\<rparr>, 1558)"
    by code_simp
  note ta = Base256_length_prefix [OF na ua, unfolded Let_def, THEN conjunct1, THEN conjunct1]
  note tb = Base256_length_prefix [OF nb ub, unfolded Let_def, THEN conjunct1, THEN conjunct1]
  note tc = Base256_length_prefix [OF nc uc, unfolded Let_def, THEN conjunct1, THEN conjunct1]
  show ?thesis
  proof (intro conjI)
    show "Base256_finish ?sel ?a [0, 171, 228, 246, 252, 233]
            = Normal \<lparr>message = [171, 228, 246, 252, 233],
               codewords = [231, 49, 108, 59, 226, 126, 1], currentPos = 5,
               newEncoding = None, symbolInfo = Some 8, skipAtEnd = 0\<rparr>"
      by (rule trans [OF ta]) code_simp
    show "case Base256_finish ?sel ?b (0 # replicate 250 128) of
            Normal c \<Rightarrow> take 3 (codewords c) = [231, 38, 193] \<and> length (codewords c) = 253
          | Throw e c \<Rightarrow> False"
      by (subst tb) code_simp
    show "Base256_finish ?sel ?c (0 # replicate 1556 128)
            = Throw MessageTooLong
                \<lparr>message = [65], codewords = [231], currentPos = 0, newEncoding = None,
                 symbolInfo = Some 1558, skipAtEnd = 0\<rparr>"
      by (rule trans [OF tc]) code_simp
  qed
qed

subsection \<open>The driver: unlatch and padding\<close>

lemma pad_loop_eq:
  "pad_loop ctx capacity =
     ctx\<lparr>codewords := codewords ctx
          @ map (\<lambda>pos. Randomize253State PAD (pos + 1)) [codewordCount ctx .. capacity - 1]\<rparr>"
proof (induction ctx capacity rule: pad_loop.induct)
  case (1 ctx capacity)
  show ?case
  proof (cases "codewordCount ctx < capacity")
    case True
    then have up: "[codewordCount ctx .. capacity - 1]
                     = codewordCount ctx # [codewordCount ctx + 1 .. capacity - 1]"
      by (simp add: upto_rec1)
    have cnt: "codewordCount (addCodeword ctx (Randomize253State PAD (codewordCount ctx + 1)))
                 = codewordCount ctx + 1"
      by (simp add: codewordCount_def addCodeword_def)
    show ?thesis
      by (subst pad_loop.simps) (simp add: True "1.IH" [OF True] cnt up, simp add: addCodeword_def)
  next
    case False
    then show ?thesis by (subst pad_loop.simps) simp
  qed
qed

lemma catalog_of_fits: "catalog_of caps n = Some c \<Longrightarrow> n \<le> c"
  by (auto simp: catalog_of_def find_Some_iff)

text \<open>
  What the driver does after the main loop, whenever \<open>Encode\<close> returns codewords and
  the catalog's symbols hold the number of codewords they are selected for: with
  \<open>ctx\<close> and \<open>encodingMode\<close> the context and mode at the end of the main loop and
  \<open>capacity\<close> the capacity \<open>updateSymbolInfo\<close> returns for the codeword count, the
  output is the codewords of \<open>ctx\<close>, then the unlatch iff the count is below the
  capacity and the mode is neither ASCII nor Base 256, then 129 once iff the count is
  still below the capacity, then \<open>Randomize253State 129 (pos + 1)\<close> for every
  remaining position \<open>pos\<close>; its length is the capacity. The unlatch is written as
  \<open>addCodeword('\xfe')\<close>, a plain \<open>char\<close> passed for an \<open>int\<close>: the codeword is
  \<open>sint 0xFE\<close>, that is -2.
\<close>

lemma Encode_unlatch_and_padding:
  assumes "Encode fuel sel msg = Some (Inr output)"
    and "\<forall>n c. sel n = Some c \<longrightarrow> n \<le> c"
  shows "\<exists>ctx encodingMode capacity.
           Encode_loop fuel sel (initial_context msg) ASCII_ENCODATION
             = Some (Normal (ctx, encodingMode)) \<and>
           updateSymbolInfo sel ctx (codewordCount ctx)
             = Normal (ctx\<lparr>symbolInfo := Some capacity\<rparr>, capacity) \<and>
           (let len = codewordCount ctx;
                unlatch = (if len < capacity \<and> encodingMode \<noteq> ASCII_ENCODATION
                              \<and> encodingMode \<noteq> BASE256_ENCODATION
                           then [sint (0xFE :: byte)] else []);
                pad = (if len + int (length unlatch) < capacity then [129] else []);
                n = len + int (length unlatch) + int (length pad)
            in output = codewords ctx @ unlatch @ pad
                          @ map (\<lambda>pos. Randomize253State 129 (pos + 1)) [n .. capacity - 1]) \<and>
           int (length output) = capacity"
proof -
  from assms(1) obtain ctx encodingMode where
    loop: "Encode_loop fuel sel (initial_context msg) ASCII_ENCODATION
             = Some (Normal (ctx, encodingMode))"
    and fin: "finalize sel ctx encodingMode = Normal output"
    by (auto simp: Encode_def split: option.splits outcome.splits)
  from fin obtain ctx1 capacity where
    upd: "updateSymbolInfo sel ctx (codewordCount ctx) = Normal (ctx1, capacity)"
    by (auto simp: finalize_def Let_def split: outcome.splits)
  have c1: "ctx1 = ctx\<lparr>symbolInfo := Some capacity\<rparr>"
    using upd by (rule updateSymbolInfo_Normal)
  have le: "codewordCount ctx \<le> capacity"
    using upd assms(2) by (auto simp: updateSymbolInfo_def split: option.splits if_splits)
  define unlatch where "unlatch = (if codewordCount ctx < capacity
      \<and> encodingMode \<noteq> ASCII_ENCODATION \<and> encodingMode \<noteq> BASE256_ENCODATION
      then [sint (0xFE :: byte)] else [])"
  define pad where "pad = (if codewordCount ctx + int (length unlatch) < capacity
      then [129 :: int] else [])"
  define n where "n = codewordCount ctx + int (length unlatch) + int (length pad)"
  have out: "output = codewords ctx @ unlatch @ pad
               @ map (\<lambda>pos. Randomize253State 129 (pos + 1)) [n .. capacity - 1]"
    using fin unfolding finalize_def Let_def upd
    by (auto simp: c1 pad_loop_eq codewordCount_def addCodeword_def PAD_def unlatch_def pad_def
          n_def add.commute [of 1])
  have nle: "n \<le> capacity"
    using le by (auto simp: n_def pad_def unlatch_def)
  have "int (length output) = n + int (length [n .. capacity - 1])"
    unfolding out by (simp add: n_def codewordCount_def)
  with nle have len: "int (length output) = capacity" by simp
  show ?thesis
    using loop upd out len unfolding c1 Let_def unlatch_def pad_def n_def by blast
qed

text \<open>
  C6 fails on the code in the codeword of the unlatch. The message is
  \<open>AB>AB>AB>AB>AB>AB>\<close>: the main loop ends in X12 mode with 13 codewords, and the
  symbol selected for them holds 16. The driver writes its unlatch as the character
  literal \<open>'\xfe'\<close>, and the codeword is -2 where the claim, and the comment
  \<open>//Unlatch (254)\<close> of that line, say 254. The pad 129, the randomized pad
  \<open>Randomize253State 129 16\<close> and the length of the output are as the claim says.
\<close>

theorem finalize_unlatch_char_literal:
  "Encode_loop 3 (catalog_of ecc200)
       (initial_context [65, 66, 62, 65, 66, 62, 65, 66, 62, 65, 66, 62, 65, 66, 62, 65, 66, 62])
       ASCII_ENCODATION
     = Some (Normal
         (\<lparr>message = [65, 66, 62, 65, 66, 62, 65, 66, 62, 65, 66, 62, 65, 66, 62, 65, 66, 62],
           codewords = [238, 89, 219, 89, 219, 89, 219, 89, 219, 89, 219, 89, 219],
           currentPos = 18, newEncoding = None, symbolInfo = None, skipAtEnd = 0\<rparr>,
          X12_ENCODATION)) \<and>
   finalize (catalog_of ecc200)
       \<lparr>message = [65, 66, 62, 65, 66, 62, 65, 66, 62, 65, 66, 62, 65, 66, 62, 65, 66, 62],
        codewords = [238, 89, 219, 89, 219, 89, 219, 89, 219, 89, 219, 89, 219],
        currentPos = 18, newEncoding = None, symbolInfo = None, skipAtEnd = 0\<rparr>
       X12_ENCODATION
     = Normal [238, 89, 219, 89, 219, 89, 219, 89, 219, 89, 219, 89, 219, - 2, 129, 237] \<and>
   Encode 3 (catalog_of ecc200)
       [65, 66, 62, 65, 66, 62, 65, 66, 62, 65, 66, 62, 65, 66, 62, 65, 66, 62]
     = Some (Inr [238, 89, 219, 89, 219, 89, 219, 89, 219, 89, 219, 89, 219, - 2, 129, 237]) \<and>
   Randomize253State 129 16 = 237"
  by code_simp

subsection \<open>The driver: the range of the codewords\<close>

text \<open>
  C9 fails on the code. The message is \<open>*DTCP0*DT\<close>: the main loop ends in X12 mode
  with seven codewords in a symbol that holds eight, and the unlatch the driver writes
  as \<open>'\xfe'\<close> is the codeword -2, outside the range from 0 to 255 that the comment of
  \<open>Encode\<close> promises. The loop \<open>for (char c : buffer)\<close> of \<open>EncodeBase256\<close> gives
  \<open>Randomize255State\<close> a \<open>char\<close> for its \<open>int\<close> as well: an octet from 128 goes in as
  a negative number, and the value that comes out can be negative. For the encoder
  called after the latch 231 on the two octets \<open>0x80 0x80\<close> the last codeword is
  \<open>Randomize255State (- 128) 4\<close>, which is -41. (The driver does not get there with
  such octets: the look-ahead reads them as negative numbers, none of them counts as
  extended ASCII, and Base 256 is never its answer.)
\<close>

theorem Encode_codeword_out_of_range:
  "Encode 3 (catalog_of ecc200) [42, 68, 84, 67, 80, 48, 42, 68, 84]
     = Some (Inr [238, 9, 10, 104, 141, 9, 10, - 2]) \<and>
   EncodeBase256 (catalog_of ecc200)
       \<lparr>message = [0x80, 0x80], codewords = [231], currentPos = 0,
        newEncoding = None, symbolInfo = None, skipAtEnd = 0\<rparr>
     = Normal \<lparr>message = [0x80, 0x80], codewords = [231, 46, 65, - 41], currentPos = 2,
               newEncoding = None, symbolInfo = Some 5, skipAtEnd = 0\<rparr> \<and>
   Randomize255State (sint (0x80 :: byte)) 4 = - 41"
  by code_simp

subsection \<open>X12: end of data\<close>

lemma EncodeX12_context:
  "EncodeX12 sel ctx = Normal ctx' \<Longrightarrow> \<exists>buffer. X12_loop ctx [] = Normal (ctx', buffer)"
  by (auto simp: EncodeX12_def split: outcome.splits)

text \<open>
  C1 fails on the code. The message is \<open>*DTCP01\<close>, and the context is the one the
  driver calls the X12 encoder with, after the ASCII encoder has written the latch 238.
  The loop of \<open>EncodeX12\<close> consumes all seven characters, writes two triples, and
  leaves one unflushed value in the buffer. On its copy of the context \<open>HandleEOD\<close>
  moves the cursor back by 1, appends 254 and sets the new encoding to ASCII; the
  context \<open>EncodeX12\<close> leaves to the driver has none of the three, and the output of
  \<open>Encode\<close> has neither the unlatch nor the last character.
\<close>

theorem EncodeX12_HandleEOD_by_value:
  "X12_loop \<lparr>message = [42, 68, 84, 67, 80, 48, 49], codewords = [238], currentPos = 0,
             newEncoding = None, symbolInfo = None, skipAtEnd = 0\<rparr> []
     = Normal (\<lparr>message = [42, 68, 84, 67, 80, 48, 49], codewords = [238, 9, 10, 104, 141],
                currentPos = 7, newEncoding = None, symbolInfo = None, skipAtEnd = 0\<rparr>, [5]) \<and>
   X12_HandleEOD (catalog_of ecc200)
       \<lparr>message = [42, 68, 84, 67, 80, 48, 49], codewords = [238, 9, 10, 104, 141],
        currentPos = 7, newEncoding = None, symbolInfo = None, skipAtEnd = 0\<rparr> [5]
     = Normal \<lparr>message = [42, 68, 84, 67, 80, 48, 49],
               codewords = [238, 9, 10, 104, 141, 254], currentPos = 6,
               newEncoding = Some ASCII_ENCODATION, symbolInfo = Some 5, skipAtEnd = 0\<rparr> \<and>
   EncodeX12 (catalog_of ecc200)
       \<lparr>message = [42, 68, 84, 67, 80, 48, 49], codewords = [238], currentPos = 0,
        newEncoding = None, symbolInfo = None, skipAtEnd = 0\<rparr>
     = Normal \<lparr>message = [42, 68, 84, 67, 80, 48, 49], codewords = [238, 9, 10, 104, 141],
               currentPos = 7, newEncoding = None, symbolInfo = None, skipAtEnd = 0\<rparr> \<and>
   Encode 5 (catalog_of ecc200) [42, 68, 84, 67, 80, 48, 49]
     = Some (Inr [238, 9, 10, 104, 141])"
  by code_simp

subsection \<open>Text: the mode given to the look-ahead\<close>

text \<open>
  C2 fails on the code. \<open>EncodeText\<close> gives \<open>C40_ENCODATION\<close> to \<open>EncodeC40\<close>, so
  the look-ahead is asked with the current mode C40 and its answer is compared with
  C40. The message is \<open>abcdef\<close>, and the context is the one the driver calls the Text
  encoder with, after the latch 239. After \<open>abc\<close> the look-ahead asked with C40
  answers ASCII and the encoder stops; asked with Text it answers Text, and the
  encoder given \<open>TEXT_ENCODATION\<close> goes on to the end of the message.
\<close>

theorem EncodeText_lookahead_mode:
  "LookAheadTest [97, 98, 99, 100, 101, 102] 3 C40_ENCODATION = Some ASCII_ENCODATION \<and>
   LookAheadTest [97, 98, 99, 100, 101, 102] 3 TEXT_ENCODATION = Some TEXT_ENCODATION \<and>
   EncodeText (catalog_of ecc200)
       \<lparr>message = [97, 98, 99, 100, 101, 102], codewords = [239], currentPos = 0,
        newEncoding = None, symbolInfo = None, skipAtEnd = 0\<rparr>
     = Normal \<lparr>message = [97, 98, 99, 100, 101, 102], codewords = [239, 89, 233, 254],
               currentPos = 3, newEncoding = Some ASCII_ENCODATION, symbolInfo = Some 3,
               skipAtEnd = 0\<rparr> \<and>
   EncodeC40_with (catalog_of ecc200) Text_EncodeChar TEXT_ENCODATION
       \<lparr>message = [97, 98, 99, 100, 101, 102], codewords = [239], currentPos = 0,
        newEncoding = None, symbolInfo = None, skipAtEnd = 0\<rparr>
     = Normal \<lparr>message = [97, 98, 99, 100, 101, 102], codewords = [239, 89, 233, 109, 36],
               currentPos = 6, newEncoding = Some ASCII_ENCODATION, symbolInfo = Some 5,
               skipAtEnd = 0\<rparr> \<and>
   Encode 6 (catalog_of ecc200) [97, 98, 99, 100, 101, 102]
     = Some (Inr [239, 89, 233, 254, 101, 102, 103, 129])"
  by code_simp

subsection \<open>EDIFACT: end of data\<close>

text \<open>An exception inside the handler leaves with the new encoding set to ASCII.\<close>

lemma Edifact_HandleEOD_Throw:
  "Edifact_HandleEOD sel ctx buffer = Throw e c \<Longrightarrow> newEncoding c = Some ASCII_ENCODATION"
  by (auto simp: Edifact_HandleEOD_def setNewEncoding_def split: outcome.splits bool.splits)

text \<open>
  C8 fails on the code in its second half. The message is eight full stops, and the
  context is the one at the end of the loop of \<open>EncodeEdifact\<close>: all characters
  consumed, six codewords written after the latch 240, and the buffer holding the
  unlatch value 31 only. One codeword is left in the symbol of capacity 8, so the
  handler leaves through \<open>return; //No unlatch\<close>, past the statement that sets the new
  encoding: none is pending when it returns. The driver stays in EDIFACT mode and
  ends the output with its unlatch (written as \<open>'\xfe'\<close>, the codeword -2) where a
  pad 129 would stand.
\<close>

theorem Edifact_HandleEOD_early_return:
  "Edifact_HandleEOD (catalog_of ecc200)
       \<lparr>message = [46, 46, 46, 46, 46, 46, 46, 46],
        codewords = [240, 186, 235, 174, 186, 235, 174], currentPos = 8,
        newEncoding = None, symbolInfo = None, skipAtEnd = 0\<rparr> [31]
     = Normal \<lparr>message = [46, 46, 46, 46, 46, 46, 46, 46],
               codewords = [240, 186, 235, 174, 186, 235, 174], currentPos = 8,
               newEncoding = None, symbolInfo = Some 8, skipAtEnd = 0\<rparr> \<and>
   EncodeEdifact (catalog_of ecc200)
       \<lparr>message = [46, 46, 46, 46, 46, 46, 46, 46], codewords = [240], currentPos = 0,
        newEncoding = None, symbolInfo = None, skipAtEnd = 0\<rparr>
     = Normal \<lparr>message = [46, 46, 46, 46, 46, 46, 46, 46],
               codewords = [240, 186, 235, 174, 186, 235, 174], currentPos = 8,
               newEncoding = None, symbolInfo = Some 8, skipAtEnd = 0\<rparr> \<and>
   Encode 5 (catalog_of ecc200) [46, 46, 46, 46, 46, 46, 46, 46]
     = Some (Inr [240, 186, 235, 174, 186, 235, 174, - 2])"
  by code_simp

subsection \<open>The scenario \<open>ABCDEF\<close>\<close>

text \<open>A context with no trailing octets to skip.\<close>

definition ctx_at :: "byte list \<Rightarrow> int list \<Rightarrow> int \<Rightarrow> Mode option \<Rightarrow> int option \<Rightarrow> EncoderContext" where
  "ctx_at m cws p ne s =
     \<lparr>message = m, codewords = cws, currentPos = p, newEncoding = ne, symbolInfo = s,
      skipAtEnd = 0\<rparr>"

lemma updateSymbolInfo_cases:
  assumes "\<forall>n c. sel n = Some c \<longrightarrow> n \<le> c"
  shows "updateSymbolInfo sel ctx n = Throw NoFittingSymbol ctx \<or>
         (\<exists>cap. n \<le> cap \<and> (symbolInfo ctx = Some cap \<or> sel n = Some cap) \<and>
                updateSymbolInfo sel ctx n = Normal (ctx\<lparr>symbolInfo := Some cap\<rparr>, cap))"
  using assms by (auto simp: updateSymbolInfo_def split: option.splits)

lemma tail_adjust_mod0:
  "length buffer mod 3 = 0 \<Longrightarrow> tail_adjust ctx buffer l a = Normal (ctx, buffer)"
  by (simp add: tail_adjust_def) (subst backtrack_while.simps, simp)

lemma C40_mid_step:
  assumes cat: "\<forall>n c. sel n = Some c \<longrightarrow> n \<le> c"
    and more: "0 \<le> p" "p + 1 < int (length m)" "p + 1 < 2 ^ 64"
    and ch: "C40_EncodeChar (m ! nat p) buffer = Inr (buffer', l)"
    and la: "length buffer' mod 3 = 0 \<longrightarrow>
               LookAheadTest m (nat (p + 1)) C40_ENCODATION = Some C40_ENCODATION"
    and n: "n = int (length cws) + (int (length buffer') div 3) * 2"
    and thr: "\<And>c. Q (Throw NoFittingSymbol c)"
    and nxt: "\<And>cap. n \<le> cap \<Longrightarrow> s = Some cap \<or> sel n = Some cap \<Longrightarrow>
                Q (C40_loop sel (\<lambda>c. C40_EncodeChar (word_of_int c)) C40_ENCODATION
                     (ctx_at m cws (p + 1) None (Some cap)) buffer')"
  shows "Q (C40_loop sel (\<lambda>c. C40_EncodeChar (word_of_int c)) C40_ENCODATION
              (ctx_at m cws p None s) buffer)"
proof -
  let ?ctx = "ctx_at m cws p None s"
  let ?ctx1 = "ctx_at m cws (p + 1) None s"
  have hm: "hasMoreCharacters ?ctx"
    using more by (simp add: hasMoreCharacters_def totalMessageCharCount_def ctx_at_def)
  have cc: "currentChar ?ctx = Some (uint (m ! nat p))"
    using more by (simp add: currentChar_def str_at_def ctx_at_def)
  have sp: "setCurrentPos ?ctx (currentPos ?ctx + 1) = ?ctx1"
    by (simp add: setCurrentPos_def ctx_at_def)
  have cnt: "codewordCount ?ctx1 = int (length cws)"
    by (simp add: codewordCount_def ctx_at_def)
  consider (thrown) "updateSymbolInfo sel ?ctx1 n = Throw NoFittingSymbol ?ctx1"
    | (selected) cap where "n \<le> cap" "symbolInfo ?ctx1 = Some cap \<or> sel n = Some cap"
        "updateSymbolInfo sel ?ctx1 n = Normal (?ctx1\<lparr>symbolInfo := Some cap\<rparr>, cap)"
    using updateSymbolInfo_cases [OF cat, of ?ctx1 n] by blast
  then show ?thesis
  proof cases
    case thrown
    then have "C40_loop sel (\<lambda>c. C40_EncodeChar (word_of_int c)) C40_ENCODATION ?ctx buffer
                 = Throw NoFittingSymbol ?ctx1"
      unfolding n by (subst C40_loop.simps) (simp add: hm cc sp cnt ch Let_def)
    then show ?thesis by (simp add: thr)
  next
    case selected
    note le = selected(1) and src = selected(2) and u = selected(3)
    have c2: "?ctx1\<lparr>symbolInfo := Some cap\<rparr> = ctx_at m cws (p + 1) None (Some cap)"
      by (simp add: ctx_at_def)
    have hm2: "hasMoreCharacters (ctx_at m cws (p + 1) None (Some cap))"
      using more by (simp add: hasMoreCharacters_def totalMessageCharCount_def ctx_at_def)
    have st: "size_t_of (currentPos (ctx_at m cws (p + 1) None (Some cap))) = nat (p + 1)"
      using more by (simp add: size_t_of_def ctx_at_def)
    have msg: "message (ctx_at m cws (p + 1) None (Some cap)) = m"
      by (simp add: ctx_at_def)
    from src have src': "s = Some cap \<or> sel n = Some cap" by (simp add: ctx_at_def)
    have "C40_loop sel (\<lambda>c. C40_EncodeChar (word_of_int c)) C40_ENCODATION ?ctx buffer
            = C40_loop sel (\<lambda>c. C40_EncodeChar (word_of_int c)) C40_ENCODATION
                (ctx_at m cws (p + 1) None (Some cap)) buffer'"
      using u la unfolding n c2
      by (subst C40_loop.simps) (simp add: hm cc sp cnt ch Let_def hm2 st msg)
    then show ?thesis using nxt [OF le src'] by simp
  qed
qed

lemma C40_last_step:
  assumes cat: "\<forall>n c. sel n = Some c \<longrightarrow> n \<le> c"
    and more: "0 \<le> p" "p + 1 = int (length m)"
    and ch: "C40_EncodeChar (m ! nat p) buffer = Inr (buffer', l)"
    and m3: "length buffer' mod 3 = 0"
    and n: "n = int (length cws) + (int (length buffer') div 3) * 2"
    and thr: "\<And>c. Q (Throw NoFittingSymbol c)"
    and nxt: "\<And>cap. n \<le> cap \<Longrightarrow> s = Some cap \<or> sel n = Some cap \<Longrightarrow>
                Q (Normal (ctx_at m cws (p + 1) None (Some cap), buffer'))"
  shows "Q (C40_loop sel (\<lambda>c. C40_EncodeChar (word_of_int c)) C40_ENCODATION
              (ctx_at m cws p None s) buffer)"
proof -
  let ?ctx = "ctx_at m cws p None s"
  let ?ctx1 = "ctx_at m cws (p + 1) None s"
  have hm: "hasMoreCharacters ?ctx"
    using more by (simp add: hasMoreCharacters_def totalMessageCharCount_def ctx_at_def)
  have cc: "currentChar ?ctx = Some (uint (m ! nat p))"
    using more by (simp add: currentChar_def str_at_def ctx_at_def)
  have sp: "setCurrentPos ?ctx (currentPos ?ctx + 1) = ?ctx1"
    by (simp add: setCurrentPos_def ctx_at_def)
  have cnt: "codewordCount ?ctx1 = int (length cws)"
    by (simp add: codewordCount_def ctx_at_def)
  consider (thrown) "updateSymbolInfo sel ?ctx1 n = Throw NoFittingSymbol ?ctx1"
    | (selected) cap where "n \<le> cap" "symbolInfo ?ctx1 = Some cap \<or> sel n = Some cap"
        "updateSymbolInfo sel ?ctx1 n = Normal (?ctx1\<lparr>symbolInfo := Some cap\<rparr>, cap)"
    using updateSymbolInfo_cases [OF cat, of ?ctx1 n] by blast
  then show ?thesis
  proof cases
    case thrown
    then have "C40_loop sel (\<lambda>c. C40_EncodeChar (word_of_int c)) C40_ENCODATION ?ctx buffer
                 = Throw NoFittingSymbol ?ctx1"
      unfolding n by (subst C40_loop.simps) (simp add: hm cc sp cnt ch Let_def)
    then show ?thesis by (simp add: thr)
  next
    case selected
    note le = selected(1) and src = selected(2) and u = selected(3)
    have c2: "?ctx1\<lparr>symbolInfo := Some cap\<rparr> = ctx_at m cws (p + 1) None (Some cap)"
      by (simp add: ctx_at_def)
    have hm2: "\<not> hasMoreCharacters (ctx_at m cws (p + 1) None (Some cap))"
      using more by (simp add: hasMoreCharacters_def totalMessageCharCount_def ctx_at_def)
    from src have src': "s = Some cap \<or> sel n = Some cap" by (simp add: ctx_at_def)
    have "C40_loop sel (\<lambda>c. C40_EncodeChar (word_of_int c)) C40_ENCODATION ?ctx buffer
            = Normal (ctx_at m cws (p + 1) None (Some cap), buffer')"
      using u unfolding n c2
      by (subst C40_loop.simps) (simp add: hm cc sp cnt ch Let_def hm2 tail_adjust_mod0 [OF m3])
    then show ?thesis using nxt [OF le src'] by simp
  qed
qed


definition ABCDEF :: "byte list" where
  "ABCDEF = [65, 66, 67, 68, 69, 70]"

lemma C40_loop_ABCDEF:
  assumes cat: "\<forall>n c. sel n = Some c \<longrightarrow> n \<le> c"
  shows "(\<exists>c. C40_loop sel (\<lambda>c. C40_EncodeChar (word_of_int c)) C40_ENCODATION
                (ctx_at ABCDEF [230] 0 None None) [] = Throw NoFittingSymbol c) \<or>
         (\<exists>cap. 5 \<le> cap \<and> (sel 1 = Some cap \<or> sel 3 = Some cap \<or> sel 5 = Some cap) \<and>
                C40_loop sel (\<lambda>c. C40_EncodeChar (word_of_int c)) C40_ENCODATION
                  (ctx_at ABCDEF [230] 0 None None) []
                  = Normal (ctx_at ABCDEF [230] 6 None (Some cap), [14, 15, 16, 17, 18, 19]))"
proof -
  let ?R = "\<lambda>cap. sel 1 = Some cap \<or> sel 3 = Some cap \<or> sel 5 = Some cap"
  let ?Q = "\<lambda>r. (\<exists>c. r = Throw NoFittingSymbol c) \<or>
         (\<exists>cap. 5 \<le> cap \<and> ?R cap \<and>
                r = Normal (ctx_at ABCDEF [230] 6 None (Some cap), [14, 15, 16, 17, 18, 19]))"
  let ?L = "\<lambda>p s b. C40_loop sel (\<lambda>c. C40_EncodeChar (word_of_int c)) C40_ENCODATION
                (ctx_at ABCDEF [230] p None s) b"
  have len: "int (length ABCDEF) = 6" by (simp add: ABCDEF_def)
  have e0: "C40_EncodeChar (ABCDEF ! nat 0) [] = Inr ([14], 1)" by code_simp
  have e1: "C40_EncodeChar (ABCDEF ! nat 1) [14] = Inr ([14, 15], 1)" by code_simp
  have e2: "C40_EncodeChar (ABCDEF ! nat 2) [14, 15] = Inr ([14, 15, 16], 1)" by code_simp
  have e3: "C40_EncodeChar (ABCDEF ! nat 3) [14, 15, 16] = Inr ([14, 15, 16, 17], 1)"
    by code_simp
  have e4: "C40_EncodeChar (ABCDEF ! nat 4) [14, 15, 16, 17] = Inr ([14, 15, 16, 17, 18], 1)"
    by code_simp
  have e5: "C40_EncodeChar (ABCDEF ! nat 5) [14, 15, 16, 17, 18]
              = Inr ([14, 15, 16, 17, 18, 19], 1)"
    by code_simp
  have la: "LookAheadTest ABCDEF 3 C40_ENCODATION = Some C40_ENCODATION"
    by code_simp
  have s5: "?Q (?L 5 s [14, 15, 16, 17, 18])" if "s = None \<or> (\<exists>c. s = Some c \<and> ?R c)" for s
  proof (rule C40_last_step [OF cat _ _ e5, where n = 5])
    fix cap
    assume "5 \<le> cap" "s = Some cap \<or> sel 5 = Some cap"
    with that show "?Q (Normal (ctx_at ABCDEF [230] (5 + 1) None (Some cap),
                                 [14, 15, 16, 17, 18, 19]))"
      by auto
  qed (simp_all add: len)
  have s4: "?Q (?L 4 s [14, 15, 16, 17])" if "s = None \<or> (\<exists>c. s = Some c \<and> ?R c)" for s
  proof (rule C40_mid_step [OF cat _ _ _ e4, where n = 3])
    fix cap
    assume "3 \<le> cap" "s = Some cap \<or> sel 3 = Some cap"
    with that have "?Q (?L 5 (Some cap) [14, 15, 16, 17, 18])" by (intro s5) auto
    then show "?Q (?L (4 + 1) (Some cap) [14, 15, 16, 17, 18])" by simp
  qed (simp_all add: len)
  have s3: "?Q (?L 3 s [14, 15, 16])" if "s = None \<or> (\<exists>c. s = Some c \<and> ?R c)" for s
  proof (rule C40_mid_step [OF cat _ _ _ e3, where n = 3])
    fix cap
    assume "3 \<le> cap" "s = Some cap \<or> sel 3 = Some cap"
    with that have "?Q (?L 4 (Some cap) [14, 15, 16, 17])" by (intro s4) auto
    then show "?Q (?L (3 + 1) (Some cap) [14, 15, 16, 17])" by simp
  qed (simp_all add: len)
  have s2: "?Q (?L 2 s [14, 15])" if "s = None \<or> (\<exists>c. s = Some c \<and> ?R c)" for s
  proof (rule C40_mid_step [OF cat _ _ _ e2, where n = 3])
    fix cap
    assume "3 \<le> cap" "s = Some cap \<or> sel 3 = Some cap"
    with that have "?Q (?L 3 (Some cap) [14, 15, 16])" by (intro s3) auto
    then show "?Q (?L (2 + 1) (Some cap) [14, 15, 16])" by simp
  qed (simp_all add: len la)
  have s1: "?Q (?L 1 s [14])" if "s = None \<or> (\<exists>c. s = Some c \<and> ?R c)" for s
  proof (rule C40_mid_step [OF cat _ _ _ e1, where n = 1])
    fix cap
    assume "1 \<le> cap" "s = Some cap \<or> sel 1 = Some cap"
    with that have "?Q (?L 2 (Some cap) [14, 15])" by (intro s2) auto
    then show "?Q (?L (1 + 1) (Some cap) [14, 15])" by simp
  qed (simp_all add: len)
  have s0: "?Q (?L 0 None [])"
  proof (rule C40_mid_step [OF cat _ _ _ e0, where n = 1])
    fix cap
    assume "1 \<le> cap" "None = Some cap \<or> sel 1 = Some cap"
    then have "?Q (?L 1 (Some cap) [14])" by (intro s1) auto
    then show "?Q (?L (0 + 1) (Some cap) [14])" by simp
  qed (simp_all add: len)
  then show ?thesis .
qed


lemma EncodeC40_ABCDEF:
  assumes cat: "\<forall>n c. sel n = Some c \<longrightarrow> n \<le> c"
  shows "(\<exists>c. EncodeC40 sel (ctx_at ABCDEF [230] 0 None None) = Throw NoFittingSymbol c) \<or>
         (\<exists>cap. 5 \<le> cap \<and> (sel 1 = Some cap \<or> sel 3 = Some cap \<or> sel 5 = Some cap) \<and>
                EncodeC40 sel (ctx_at ABCDEF [230] 0 None None)
                  = Normal (ctx_at ABCDEF ([230, 89, 233, 109, 36] @ (if 5 < cap then [254] else []))
                              6 (Some ASCII_ENCODATION) (Some cap)))"
proof -
  from C40_loop_ABCDEF [OF cat]
  consider (thrown) c where
      "C40_loop sel (\<lambda>c. C40_EncodeChar (word_of_int c)) C40_ENCODATION
         (ctx_at ABCDEF [230] 0 None None) [] = Throw NoFittingSymbol c"
    | (finished) cap where "5 \<le> cap" "sel 1 = Some cap \<or> sel 3 = Some cap \<or> sel 5 = Some cap"
      "C40_loop sel (\<lambda>c. C40_EncodeChar (word_of_int c)) C40_ENCODATION
         (ctx_at ABCDEF [230] 0 None None) []
         = Normal (ctx_at ABCDEF [230] 6 None (Some cap), [14, 15, 16, 17, 18, 19])"
    by blast
  then show ?thesis
  proof cases
    case thrown
    then show ?thesis by (simp add: EncodeC40_def EncodeC40_with_def)
  next
    case finished
    let ?ctx = "ctx_at ABCDEF [230] 6 None (Some cap)"
    let ?buf = "[14, 15, 16, 17, 18, 19] :: byte list"
    have upd: "updateSymbolInfo sel ?ctx (codewordCount ?ctx + (int (length ?buf) div 3) * 2)
                 = Normal (?ctx, cap)"
      using finished(1) by (simp add: updateSymbolInfo_def ctx_at_def codewordCount_def)
    have nm: "\<not> hasMoreCharacters ?ctx"
      by (simp add: hasMoreCharacters_def totalMessageCharCount_def ctx_at_def ABCDEF_def)
    have eod: "C40_HandleEOD sel ?ctx ?buf
                 = Normal (ctx_at ABCDEF ([230, 89, 233, 109, 36] @ (if 5 < cap then [254] else []))
                              6 (Some ASCII_ENCODATION) (Some cap), [])"
      unfolding C40_HandleEOD_eq [OF upd]
      by (simp add: nm nm [unfolded ctx_at_def] Let_def triplet_rest_def codewordCount_def
            ctx_at_def)
    have "EncodeC40 sel (ctx_at ABCDEF [230] 0 None None)
            = Normal (ctx_at ABCDEF ([230, 89, 233, 109, 36] @ (if 5 < cap then [254] else []))
                              6 (Some ASCII_ENCODATION) (Some cap))"
      by (simp add: EncodeC40_def EncodeC40_with_def finished(3) eod)
    with finished(1,2) show ?thesis by blast
  qed
qed

text \<open>
  C4, as amended. For every catalog whose symbols hold the number of codewords they
  are selected for, and with fuel for three passes of the main loop, \<open>Encode\<close> of
  \<open>ABCDEF\<close> either fails because the catalog has no fitting symbol, or returns 230
  (the latch to C40), then 89, 233 for the triple \<open>('A','B','C')\<close>
  (1600 * 14 + 40 * 15 + 16 + 1 = 23017 = 89 * 256 + 233), then 109, 36 for the triple
  \<open>('D','E','F')\<close>; then, with \<open>cap\<close> the capacity of the selected symbol (one the
  catalog returns for 1, 3 or 5 codewords, at least 5), the C40 unlatch 254 only
  when \<open>cap > 5\<close>, and the padding up to \<open>cap\<close>. In a symbol of capacity 5 nothing
  follows the five codewords.
\<close>

theorem Encode_ABCDEF:
  assumes cat: "\<forall>n c. sel n = Some c \<longrightarrow> n \<le> c" and fuel: "3 \<le> fuel"
  shows "Encode fuel sel ABCDEF = Some (Inl NoFittingSymbol) \<or>
         (\<exists>cap. 5 \<le> cap \<and> (sel 1 = Some cap \<or> sel 3 = Some cap \<or> sel 5 = Some cap) \<and>
                Encode fuel sel ABCDEF =
                  Some (Inr ([230, 89, 233, 109, 36]
                             @ (if 5 < cap then [254] else [])
                             @ (if 6 < cap then [129] else [])
                             @ map (\<lambda>pos. Randomize253State 129 (pos + 1)) [7 .. cap - 1])))"
proof -
  from fuel obtain k where k: "fuel = Suc (Suc (Suc k))"
    by (intro that [of "fuel - 3"]) simp
  have init: "initial_context ABCDEF = ctx_at ABCDEF [] 0 None None"
    unfolding ABCDEF_def ctx_at_def by code_simp
  have hm0: "hasMoreCharacters (ctx_at ABCDEF [] 0 None None)"
    by (simp add: hasMoreCharacters_def totalMessageCharCount_def ctx_at_def ABCDEF_def)
  have asc: "EncodeASCII (ctx_at ABCDEF [] 0 None None)
               = Normal (ctx_at ABCDEF [230] 0 (Some C40_ENCODATION) None)"
    unfolding ABCDEF_def ctx_at_def by code_simp
  have clr: "clearNewEncoding (ctx_at ABCDEF [230] 0 (Some C40_ENCODATION) None)
               = ctx_at ABCDEF [230] 0 None None"
    by (simp add: clearNewEncoding_def ctx_at_def)
  have hm1: "hasMoreCharacters (ctx_at ABCDEF [230] 0 None None)"
    by (simp add: hasMoreCharacters_def totalMessageCharCount_def ctx_at_def ABCDEF_def)
  have loop: "Encode_loop fuel sel (initial_context ABCDEF) ASCII_ENCODATION =
      (case EncodeC40 sel (ctx_at ABCDEF [230] 0 None None) of
         Throw e c \<Rightarrow> Some (Throw e c)
       | Normal ctx \<Rightarrow>
           (case newEncoding ctx of
              Some m \<Rightarrow> Encode_loop (Suc k) sel (clearNewEncoding ctx) m
            | None \<Rightarrow> Encode_loop (Suc k) sel ctx C40_ENCODATION))"
  proof -
    have ne: "newEncoding (ctx_at ABCDEF [230] 0 (Some C40_ENCODATION) None) = Some C40_ENCODATION"
      by (simp add: ctx_at_def)
    show ?thesis
      unfolding k init Encode_loop.simps
      by (simp only: hm0 asc ne clr hm1 encode_mode.simps not_True_eq_False if_False
            outcome.case option.case)
  qed
  from EncodeC40_ABCDEF [OF cat]
  consider (thrown) c where
      "EncodeC40 sel (ctx_at ABCDEF [230] 0 None None) = Throw NoFittingSymbol c"
    | (finished) cap where "5 \<le> cap" "sel 1 = Some cap \<or> sel 3 = Some cap \<or> sel 5 = Some cap"
      "EncodeC40 sel (ctx_at ABCDEF [230] 0 None None)
         = Normal (ctx_at ABCDEF ([230, 89, 233, 109, 36] @ (if 5 < cap then [254] else []))
                     6 (Some ASCII_ENCODATION) (Some cap))"
    by blast
  then show ?thesis
  proof cases
    case thrown
    have "Encode fuel sel ABCDEF = Some (Inl NoFittingSymbol)"
      unfolding Encode_def loop thrown by (simp only: option.case outcome.case)
    then show ?thesis by blast
  next
    case finished
    let ?cws = "[230, 89, 233, 109, 36] @ (if 5 < cap then [254] else [])"
    let ?ctx = "ctx_at ABCDEF ?cws 6 None (Some cap)"
    have l2: "Encode_loop fuel sel (initial_context ABCDEF) ASCII_ENCODATION
                = Some (Normal (?ctx, ASCII_ENCODATION))"
      unfolding loop finished(3)
      by (simp add: ctx_at_def clearNewEncoding_def hasMoreCharacters_def
            totalMessageCharCount_def ABCDEF_def)
    have upd: "updateSymbolInfo sel ?ctx (codewordCount ?ctx) = Normal (?ctx, cap)"
      using finished(1) by (simp add: updateSymbolInfo_def ctx_at_def codewordCount_def)
    have fin: "finalize sel ?ctx ASCII_ENCODATION =
        Normal ([230, 89, 233, 109, 36]
                 @ (if 5 < cap then [254] else [])
                 @ (if 6 < cap then [129] else [])
                 @ map (\<lambda>pos. Randomize253State 129 (pos + 1)) [7 .. cap - 1])"
    proof -
      consider "cap = 5" | "cap = 6" | "6 < cap" using finished(1) by linarith
      then show ?thesis
      proof cases
        case 1
        then show ?thesis
          unfolding finalize_def Let_def upd
          by (simp add: pad_loop_eq codewordCount_def ctx_at_def)
      next
        case 2
        then show ?thesis
          unfolding finalize_def Let_def upd
          by (simp add: pad_loop_eq codewordCount_def ctx_at_def)
      next
        case 3
        then show ?thesis
          unfolding finalize_def Let_def upd
          by (simp add: pad_loop_eq codewordCount_def addCodeword_def ctx_at_def PAD_def)
      qed
    qed
    have "Encode fuel sel ABCDEF =
        Some (Inr ([230, 89, 233, 109, 36]
                 @ (if 5 < cap then [254] else [])
                 @ (if 6 < cap then [129] else [])
                 @ map (\<lambda>pos. Randomize253State 129 (pos + 1)) [7 .. cap - 1]))"
      unfolding Encode_def l2 by (simp only: fin option.case outcome.case prod.case)
    with finished(1,2) show ?thesis by blast
  qed
qed

theorem Encode_ABCDEF_witness:
  "(\<exists>cap. 5 \<le> cap \<and>
      (catalog_of ecc200 1 = Some cap \<or> catalog_of ecc200 3 = Some cap
         \<or> catalog_of ecc200 5 = Some cap) \<and>
      Encode 3 (catalog_of ecc200) ABCDEF =
        Some (Inr ([230, 89, 233, 109, 36]
                   @ (if 5 < cap then [254] else [])
                   @ (if 6 < cap then [129] else [])
                   @ map (\<lambda>pos. Randomize253State 129 (pos + 1)) [7 .. cap - 1]))) \<and>
   catalog_of ecc200 5 = Some 5 \<and>
   (\<exists>cap. 5 \<le> cap \<and>
      (catalog_of [3, 8] 1 = Some cap \<or> catalog_of [3, 8] 3 = Some cap
         \<or> catalog_of [3, 8] 5 = Some cap) \<and>
      Encode 3 (catalog_of [3, 8]) ABCDEF =
        Some (Inr ([230, 89, 233, 109, 36]
                   @ (if 5 < cap then [254] else [])
                   @ (if 6 < cap then [129] else [])
                   @ map (\<lambda>pos. Randomize253State 129 (pos + 1)) [7 .. cap - 1]))) \<and>
   catalog_of [3, 8] 5 = Some 8"
proof -
  have p: "\<forall>n c. catalog_of caps n = Some c \<longrightarrow> n \<le> c" for caps
    using catalog_of_fits by blast
  have f: "(3 :: nat) \<le> 3" by simp
  have a: "Encode 3 (catalog_of ecc200) ABCDEF \<noteq> Some (Inl NoFittingSymbol)"
    by code_simp
  have b: "Encode 3 (catalog_of [3, 8]) ABCDEF \<noteq> Some (Inl NoFittingSymbol)"
    by code_simp
  have c: "catalog_of ecc200 5 = Some 5" "catalog_of [3, 8] 5 = Some 8"
    by code_simp+
  from Encode_ABCDEF [OF p f, of ecc200] a Encode_ABCDEF [OF p f, of "[3, 8]"] b c
  show ?thesis by blast
qed

text \<open>
  C4 as stated fails. With the capacities of the ECC 200 symbols the output is exactly
  the five codewords 230, 89, 233, 109, 36: the triple \<open>('A','B','C')\<close> gives 89, 233
  and not 34, 113, and neither an unlatch nor a pad follows, since the symbol of
  capacity 5 is full. In a catalog whose symbol for 5 codewords has capacity 8 the
  unlatch and the padding follow, after the same five codewords.
\<close>

theorem Encode_ABCDEF_counterexample:
  "Encode 3 (catalog_of ecc200) [65, 66, 67, 68, 69, 70] = Some (Inr [230, 89, 233, 109, 36]) \<and>
   Encode 3 (catalog_of [3, 8]) [65, 66, 67, 68, 69, 70]
     = Some (Inr [230, 89, 233, 109, 36, 254, 129, 56]) \<and>
   triplet_codewords [14, 15, 16] = [89, 233] \<and>
   (1600 * 14 + 40 * 15 + 16 + 1 :: int) = 89 * 256 + 233"
  by code_simp

end
